theory Spec2Isabelle
  imports Complex_Main "HOL-Library.Word" "HOL-Library.Log_Nat"
begin

section \<open>SentryAI: the detection and alert pipeline of \<open>src/App.tsx\<close>\<close>

text \<open>
  The component \<open>App\<close> keeps its pipeline state in React state cells and refs.  The
  embedding collects them in one record and turns every handler into a function from
  the state before to the state after.  What a handler reads from the browser (the clock,
  the analyser's byte data, the canvas) is an explicit input.  Times, sensitivities and
  thresholds are integers or halves of integers, which doubles hold exactly.  The motion
  score is computed as line 253 computes it, with a division and a multiplication of
  doubles, each rounded to the nearest double (\<open>fl\<close> below).  The audio score is kept as
  the exact quotient; its test against the integer threshold is shown to come out the
  same in doubles.

  \<open>detectMotion\<close> is a closure that an effect installs, and the effect runs again only
  when \<open>isMonitoring\<close>, \<open>sensitivity\<close> or \<open>analyzeFrame\<close> (that is, \<open>isAnalyzing\<close>) have
  changed.  So \<open>detectMotion\<close> reads \<open>isSmartGuard\<close> and \<open>audioSensitivity\<close> as they were
  when the effect last ran; the state keeps these two captured copies next to the cells.
  The render that follows a change of state, and the effect with it, is taken to be over
  before the next handler or tick runs.
\<close>

subsection \<open>Data model\<close>

text \<open>
  \<open>interface DetectionEvent\<close>.  The fields carry the prefix \<open>ev_\<close> because \<open>id\<close> and
  \<open>image\<close> are constants of HOL and \<open>isSuspicious\<close> is also a state cell.
\<close>

record DetectionEvent =
  ev_id :: string
  ev_timestamp :: int
  ev_image :: string
  ev_isSuspicious :: bool
  ev_reason :: string

text \<open>The result of \<open>Math.max\<close>, which is \<open>-Infinity\<close> when it is given no argument.\<close>

datatype jsnum = NegInfinity | Num rat

text \<open>
  The state cells (\<open>useState\<close>) and refs (\<open>useRef\<close>) of \<open>App\<close>.  \<open>stream\<close> and
  \<open>analyser\<close> record whether the cell holds an object; \<open>prevFrame\<close> is the \<open>data\<close> of the
  \<open>ImageData\<close> in \<open>prevFrameRef\<close>.  Three fields are not cells of the source:
  \<open>pending\<close> lists the snapshots of the calls of \<open>analyzeFrame\<close> that are suspended at
  their \<open>await\<close>; \<open>closure_isSmartGuard\<close> and \<open>closure_audioSensitivity\<close> are the values
  of \<open>isSmartGuard\<close> and \<open>audioSensitivity\<close> that the installed \<open>detectMotion\<close> captured.
\<close>

record state =
  isMonitoring :: bool
  stream :: bool
  isSuspicious :: bool
  events :: "DetectionEvent list"
  isMuted :: bool
  sensitivity :: int
  audioSensitivity :: int
  isSmartGuard :: bool
  isAnalyzing :: bool
  lastMotionDetected :: bool
  audioLevel :: jsnum
  currentMotionLevel :: rat
  prevFrame :: "8 word list option"
  lastFrameTime :: int
  lastDetectionTime :: int
  analyser :: bool
  pending :: "string list"
  closure_isSmartGuard :: bool
  closure_audioSensitivity :: int

definition initial :: state where
  "initial =
     \<lparr>isMonitoring = False, stream = False, isSuspicious = False, events = [],
      isMuted = False, sensitivity = 85, audioSensitivity = 60, isSmartGuard = True,
      isAnalyzing = False, lastMotionDetected = False, audioLevel = Num 0,
      currentMotionLevel = 0, prevFrame = None, lastFrameTime = 0,
      lastDetectionTime = 0, analyser = False, pending = [],
      closure_isSmartGuard = True, closure_audioSensitivity = 60\<rparr>"

text \<open>The \<open>canvas\<close> element is declared with \<open>width="640" height="480"\<close>.\<close>

definition canvas_width :: nat where
  "canvas_width = 640"

definition canvas_height :: nat where
  "canvas_height = 480"

text \<open>
  What one run of \<open>detectMotion\<close> reads from its environment: \<open>Date.now()\<close>, whether
  \<open>videoRef.current\<close> and \<open>canvasRef.current\<close> are set, the bytes written by
  \<open>getByteFrequencyData\<close>, whether \<open>getContext('2d')\<close> returned a context in the audio
  and in the motion part, the \<open>toDataURL\<close> snapshots, the \<open>data\<close> of \<open>getImageData\<close>,
  and the identifier and date given to a new event.
\<close>

record tick_input =
  now :: int
  videoReady :: bool
  canvasReady :: bool
  dataArray :: "8 word list"
  audioCtx :: bool
  audioSnapshot :: string
  motionCtx :: bool
  currentFrame :: "8 word list"
  motionSnapshot :: string
  newId :: string
  newDate :: int

subsection \<open>The event log\<close>

text \<open>\<open>setEvents(prev => [newEvent, ...prev].slice(0, 50))\<close>\<close>

definition pushEvent :: "DetectionEvent \<Rightarrow> DetectionEvent list \<Rightarrow> DetectionEvent list" where
  "pushEvent newEvent prev = take 50 (newEvent # prev)"

subsection \<open>Session start and stop, dismissal, clearing the log\<close>

text \<open>
  How the \<open>try\<close> block of \<open>startCamera\<close> ends: \<open>getUserMedia\<close> is refused; or the stream
  is granted and the audio setup that follows \<open>setStream\<close> and \<open>setIsMonitoring(true)\<close>
  throws before the refs are written; or all of it succeeds.  The \<open>catch\<close> branch only
  reports the error.
\<close>

datatype start_outcome = Denied | AudioSetupFailed | Started

definition startCamera :: "start_outcome \<Rightarrow> state \<Rightarrow> state" where
  "startCamera outcome s =
     (case outcome of
        Denied \<Rightarrow> s
      | AudioSetupFailed \<Rightarrow> s\<lparr>stream := True, isMonitoring := True\<rparr>
      | Started \<Rightarrow> s\<lparr>stream := True, isMonitoring := True, analyser := True\<rparr>)"

definition stopCamera :: "state \<Rightarrow> state" where
  "stopCamera s = s\<lparr>stream := False, isMonitoring := False, isSuspicious := False\<rparr>"

text \<open>The Dismiss button: \<open>setIsSuspicious(false)\<close>.\<close>

definition dismiss :: "state \<Rightarrow> state" where
  "dismiss s = s\<lparr>isSuspicious := False\<rparr>"

text \<open>The Clear Logs button: \<open>setEvents([])\<close>.\<close>

definition clearLogs :: "state \<Rightarrow> state" where
  "clearLogs s = s\<lparr>events := []\<rparr>"

subsection \<open>The verifier: \<open>analyzeFrame\<close>\<close>

text \<open>\<open>String.prototype.indexOf\<close> and \<open>lastIndexOf\<close> for one character: \<open>-1\<close> when absent.\<close>

fun indexOf :: "string \<Rightarrow> char \<Rightarrow> int" where
  "indexOf [] c = -1"
| "indexOf (x # xs) c =
     (if x = c then 0 else (let r = indexOf xs c in if r < 0 then -1 else r + 1))"

fun lastIndexOf :: "string \<Rightarrow> char \<Rightarrow> int" where
  "lastIndexOf [] c = -1"
| "lastIndexOf (x # xs) c =
     (let r = lastIndexOf xs c in if r < 0 then (if x = c then 0 else -1) else r + 1)"

text \<open>
  \<open>String.prototype.substring\<close>: both indices are clamped to the string and swapped
  when the first exceeds the second.
\<close>

definition substring :: "string \<Rightarrow> int \<Rightarrow> int \<Rightarrow> string" where
  "substring text a b =
     (let n = int (length text);
          a' = min (max a 0) n;
          b' = min (max b 0) n;
          lo = min a' b';
          hi = max a' b'
      in take (nat (hi - lo)) (drop (nat lo) text))"

text \<open>\<open>text.substring(text.indexOf('{'), text.lastIndexOf('}') + 1)\<close>\<close>

definition extractJson :: "string \<Rightarrow> string" where
  "extractJson text = substring text (indexOf text CHR ''{'') (lastIndexOf text CHR ''}'' + 1)"

text \<open>
  What the caller reads of the parsed object: the truthiness of \<open>result.isSuspicious\<close>
  and \<open>result.reason\<close> (empty when it is falsy).  \<open>JSON.parse\<close> itself is a parameter
  of the model; it returns \<open>None\<close> when it throws, or when it yields \<open>null\<close>, on which
  the read of \<open>result.isSuspicious\<close> throws into the same \<open>catch\<close>.
\<close>

record parsed =
  res_isSuspicious :: bool
  res_reason :: string

text \<open>The outcome of \<open>await ai.models.generateContent(...)\<close>: it throws, or \<open>response.text\<close>.\<close>

datatype response = RequestFailed | ResponseText "string option"

text \<open>\<open>const text = response.text || "{}";\<close> where \<open>response.text\<close> may be undefined.\<close>

definition responseText :: "string option \<Rightarrow> string" where
  "responseText t = (case t of None \<Rightarrow> ''{}'' | Some x \<Rightarrow> if x = [] then ''{}'' else x)"

text \<open>
  \<open>analyzeFrame\<close> up to its \<open>await\<close>: a call made while \<open>isAnalyzing\<close> is set returns at
  once; otherwise the flag is set and the request is sent.
\<close>

definition analyzeFrame :: "string \<Rightarrow> state \<Rightarrow> state" where
  "analyzeFrame base64Image s =
     (if isAnalyzing s then s
      else s\<lparr>isAnalyzing := True, pending := pending s @ [base64Image]\<rparr>)"

text \<open>
  \<open>analyzeFrame\<close> from its \<open>await\<close> on, for the oldest suspended call: the \<open>try\<close> body,
  the \<open>catch\<close> that only logs, and the \<open>finally\<close>.
\<close>

definition analyzeFrame_resume ::
  "(string \<Rightarrow> parsed option) \<Rightarrow> string \<Rightarrow> int \<Rightarrow> response \<Rightarrow> state \<Rightarrow> state" where
  "analyzeFrame_resume JSON_parse ident date resp s =
     (case pending s of
        [] \<Rightarrow> s
      | base64Image # rest \<Rightarrow>
          (let s0 = s\<lparr>pending := rest\<rparr>;
               s1 =
                 (case resp of
                    RequestFailed \<Rightarrow> s0
                  | ResponseText t \<Rightarrow>
                      (let text = responseText t
                       in case JSON_parse (extractJson text) of
                            None \<Rightarrow> s0
                          | Some result \<Rightarrow>
                              if res_isSuspicious result
                              then s0\<lparr>isSuspicious := True,
                                      events := pushEvent
                                        \<lparr>ev_id = ident, ev_timestamp = date,
                                         ev_image = base64Image, ev_isSuspicious = True,
                                         ev_reason = (if res_reason result = []
                                                      then ''Person detected''
                                                      else res_reason result)\<rparr>
                                        (events s0)\<rparr>
                              else s0))
           in s1\<lparr>isAnalyzing := False\<rparr>))"

subsection \<open>The audio estimator\<close>

text \<open>\<open>Math.max(...xs)\<close>\<close>

fun Math_max :: "rat list \<Rightarrow> jsnum" where
  "Math_max [] = NegInfinity"
| "Math_max (x # xs) = (case Math_max xs of NegInfinity \<Rightarrow> Num x | Num m \<Rightarrow> Num (max x m))"

text \<open>
  \<open>const max = Math.max(...Array.from(dataArray));
  const normalizedLevel = (max / 255) * 100;\<close>
\<close>

definition normalizedLevel :: "8 word list \<Rightarrow> jsnum" where
  "normalizedLevel arr =
     (case Math_max (map (\<lambda>b. of_nat (unat b)) arr) of
        NegInfinity \<Rightarrow> NegInfinity
      | Num m \<Rightarrow> Num ((m / 255) * 100))"

text \<open>The comparison \<open>x > y\<close> of a level with a finite number.\<close>

fun js_gt :: "jsnum \<Rightarrow> rat \<Rightarrow> bool" where
  "js_gt NegInfinity y = False"
| "js_gt (Num x) y = (x > y)"

subsection \<open>Doubles\<close>

text \<open>
  Rounding of a rational to the nearest double, ties to the even significand: a double
  in the binade \<open>[2^e, 2^(e+1))\<close> is a multiple of \<open>2^(e-52)\<close>.  Overflow and the
  subnormal range are not modelled; the numbers rounded here lie between \<open>2^-17\<close> and
  \<open>100\<close>, or are \<open>0\<close>.
\<close>

definition round_half_even :: "rat \<Rightarrow> int" where
  "round_half_even x =
     (let n = \<lfloor>x\<rfloor>; r = x - of_int n
      in if r < 1 / 2 then n else if 1 / 2 < r then n + 1 else if even n then n else n + 1)"

text \<open>The exponent \<open>e\<close> with \<open>2^e \<le> x < 2^(e+1)\<close>, for positive \<open>x\<close>.\<close>

definition binade :: "rat \<Rightarrow> int" where
  "binade x =
     (let (p, q) = quotient_of x; e = bitlen p - bitlen q
      in if 2 powi e \<le> x then e else e - 1)"

definition fl :: "rat \<Rightarrow> rat" where
  "fl x =
     (if x = 0 then 0
      else (let u = 2 powi (binade \<bar>x\<bar> - 52)
            in sgn x * of_int (round_half_even (\<bar>x\<bar> / u)) * u))"

subsection \<open>The motion estimator\<close>

text \<open>
  \<open>data[i]\<close> on a \<open>Uint8ClampedArray\<close>: the byte as a number, \<open>undefined\<close> out of range.
  \<open>Math.abs(a - b)\<close> is then \<open>NaN\<close>, written \<open>None\<close>, and every comparison with it is
  false.
\<close>

definition byteAt :: "8 word list \<Rightarrow> nat \<Rightarrow> int option" where
  "byteAt xs i = (if i < length xs then Some (uint (xs ! i)) else None)"

definition absDiff :: "int option \<Rightarrow> int option \<Rightarrow> int option" where
  "absDiff a b = (case (a, b) of (Some x, Some y) \<Rightarrow> Some \<bar>x - y\<bar> | _ \<Rightarrow> None)"

text \<open>\<open>rDiff + gDiff + bDiff > 45\<close> for the pixel that starts at index \<open>i\<close>.\<close>

definition pixelChanged :: "8 word list \<Rightarrow> 8 word list \<Rightarrow> nat \<Rightarrow> bool" where
  "pixelChanged data prevData i =
     (case (absDiff (byteAt data i) (byteAt prevData i),
            absDiff (byteAt data (i + 1)) (byteAt prevData (i + 1)),
            absDiff (byteAt data (i + 2)) (byteAt prevData (i + 2))) of
        (Some rDiff, Some gDiff, Some bDiff) \<Rightarrow> rDiff + gDiff + bDiff > 45
      | _ \<Rightarrow> False)"

text \<open>\<open>for (let i = 0; i < data.length; i += 16) { ... diff++ }\<close>, from index \<open>i\<close> on.\<close>

function countDiff :: "8 word list \<Rightarrow> 8 word list \<Rightarrow> nat \<Rightarrow> nat \<Rightarrow> nat" where
  "countDiff data prevData i diff =
     (if i < length data
      then countDiff data prevData (i + 16)
             (if pixelChanged data prevData i then diff + 1 else diff)
      else diff)"
  by pat_completeness auto
termination
  by (relation "measure (\<lambda>(data, prevData, i, diff). length data - i)") auto

declare countDiff.simps [simp del]

text \<open>
  \<open>const motionLevel = (diff / (canvas.width * canvas.height / 4)) * 100;\<close> in doubles.
  The count and the product of the canvas sides are integers below \<open>2^53\<close>, so only the
  two divisions and the multiplication round.
\<close>

definition motionLevel :: "8 word list \<Rightarrow> 8 word list \<Rightarrow> rat" where
  "motionLevel data prevData =
     fl (fl (of_nat (countDiff data prevData 0 0) / fl (of_nat (canvas_width * canvas_height) / 4))
         * 100)"

text \<open>\<open>const threshold = Math.max(0.5, (100 - sensitivity) / 2);\<close>\<close>

definition threshold :: "int \<Rightarrow> rat" where
  "threshold sens = max (1 / 2) (of_int (100 - sens) / 2)"

subsection \<open>One run of \<open>detectMotion\<close>\<close>

text \<open>
  The block guarded by \<open>if (analyserRef.current)\<close>.  \<open>audioSensitivity\<close> and
  \<open>isSmartGuard\<close> are the closure's copies.
\<close>

definition audioStep :: "tick_input \<Rightarrow> state \<Rightarrow> state" where
  "audioStep inp s =
     (if analyser s then
        (let level = normalizedLevel (dataArray inp);
             s1 = s\<lparr>audioLevel := level\<rparr>
         in if js_gt level (of_int (100 - closure_audioSensitivity s1)) then
              (if now inp - lastDetectionTime s1 >
                    (if closure_isSmartGuard s1 then 1000 else 300) then
                 (let s2 = s1\<lparr>lastDetectionTime := now inp\<rparr>
                  in if audioCtx inp then
                       (if closure_isSmartGuard s2 then analyzeFrame (audioSnapshot inp) s2
                        else s2\<lparr>isSuspicious := True,
                                events := pushEvent
                                  \<lparr>ev_id = newId inp, ev_timestamp = newDate inp,
                                   ev_image = audioSnapshot inp, ev_isSuspicious = True,
                                   ev_reason = ''Instant Sound Alert''\<rparr>
                                  (events s2)\<rparr>)
                     else s2)
               else s1)
            else s1)
      else s)"

text \<open>
  The body of \<open>if (prevFrameRef.current) { ... }\<close>, with \<open>prevData\<close> its data.
  \<open>sensitivity\<close> is a dependency of the effect, so the closure's copy is the cell;
  \<open>isSmartGuard\<close> is the closure's copy.
\<close>

definition compareFrames :: "tick_input \<Rightarrow> 8 word list \<Rightarrow> state \<Rightarrow> state" where
  "compareFrames inp prevData s =
     (let level = motionLevel (currentFrame inp) prevData;
          s1 = s\<lparr>currentMotionLevel := level\<rparr>
      in if level > threshold (sensitivity s1) then
           (let s2 = s1\<lparr>lastMotionDetected := True\<rparr>
            in if now inp - lastDetectionTime s2 >
                    (if closure_isSmartGuard s2 then 1000 else 300) then
                 (let s3 = s2\<lparr>lastDetectionTime := now inp\<rparr>
                  in if closure_isSmartGuard s3 then analyzeFrame (motionSnapshot inp) s3
                     else s3\<lparr>isSuspicious := True,
                             events := pushEvent
                               \<lparr>ev_id = newId inp, ev_timestamp = newDate inp,
                                ev_image = motionSnapshot inp, ev_isSuspicious = True,
                                ev_reason = ''Instant Motion Alert''\<rparr>
                               (events s3)\<rparr>)
               else s2)
         else s1)"

text \<open>
  From the 100ms gate to the end of \<open>detectMotion\<close>.  Both early returns leave the rest
  of the state as it is.
\<close>

definition motionStep :: "tick_input \<Rightarrow> state \<Rightarrow> state" where
  "motionStep inp s =
     (if now inp - lastFrameTime s < 100 then s
      else
        (let s1 = s\<lparr>lastFrameTime := now inp\<rparr>
         in if \<not> motionCtx inp then s1
            else
              (let s2 = (case prevFrame s1 of
                           None \<Rightarrow> s1
                         | Some prevData \<Rightarrow> compareFrames inp prevData s1)
               in s2\<lparr>prevFrame := Some (currentFrame inp)\<rparr>)))"

definition detectMotion :: "tick_input \<Rightarrow> state \<Rightarrow> state" where
  "detectMotion inp s =
     (if \<not> isMonitoring s \<or> \<not> videoReady inp \<or> \<not> canvasReady inp then s
      else motionStep inp (audioStep inp s))"

subsection \<open>The transitions of the component\<close>

text \<open>
  The effect \<open>useEffect(..., [isMonitoring, sensitivity, analyzeFrame])\<close>, where
  \<open>analyzeFrame\<close> is \<open>useCallback(..., [isAnalyzing])\<close>: when it runs it installs a
  \<open>detectMotion\<close> that has captured the cells of that render.
\<close>

definition install :: "state \<Rightarrow> state" where
  "install s =
     s\<lparr>closure_isSmartGuard := isSmartGuard s, closure_audioSensitivity := audioSensitivity s\<rparr>"

text \<open>The render after a handler took \<open>s\<close> to \<open>s'\<close>: the effect runs if a dependency changed.\<close>

definition rerender :: "state \<Rightarrow> state \<Rightarrow> state" where
  "rerender s s' =
     (if isMonitoring s' \<noteq> isMonitoring s \<or> sensitivity s' \<noteq> sensitivity s \<or>
         isAnalyzing s' \<noteq> isAnalyzing s
      then install s' else s')"

text \<open>
  One step of the component: a handler of the presentation layer, a run of
  \<open>detectMotion\<close>, the completion of a verification, or the timer that clears
  \<open>lastMotionDetected\<close>, each followed by its render.  The last six handlers change no
  dependency of the effect.  The sliders deliver integers from 1 to 99.
\<close>

inductive step :: "state \<Rightarrow> state \<Rightarrow> bool" where
  step_start: "step s (rerender s (startCamera outcome s))"
| step_stop: "step s (rerender s (stopCamera s))"
| step_tick: "step s (rerender s (detectMotion inp s))"
| step_resume: "step s (rerender s (analyzeFrame_resume JSON_parse ident date resp s))"
| step_sensitivity: "1 \<le> v \<Longrightarrow> v \<le> 99 \<Longrightarrow> step s (rerender s (s\<lparr>sensitivity := v\<rparr>))"
| step_dismiss: "step s (dismiss s)"
| step_clear: "step s (clearLogs s)"
| step_audioSensitivity: "1 \<le> v \<Longrightarrow> v \<le> 99 \<Longrightarrow> step s (s\<lparr>audioSensitivity := v\<rparr>)"
| step_smartGuard: "step s (s\<lparr>isSmartGuard := \<not> isSmartGuard s\<rparr>)"
| step_mute: "step s (s\<lparr>isMuted := \<not> isMuted s\<rparr>)"
| step_motionFlag: "step s (s\<lparr>lastMotionDetected := False\<rparr>)"

inductive reachable :: "state \<Rightarrow> bool" where
  reachable_initial: "reachable initial"
| reachable_step: "reachable s \<Longrightarrow> step s s' \<Longrightarrow> reachable s'"

subsection \<open>The conditions of the trigger gate\<close>

text \<open>
  The tests that \<open>detectMotion\<close> writes inline, named so that the properties below can
  refer to them, with the values \<open>detectMotion\<close> sees.  The cooldown test
  \<open>now - lastDetectionTimeRef.current > (isSmartGuard ? 1000 : 300)\<close> occurs in the audio
  and in the motion part.
\<close>

definition cooldownWindow :: "state \<Rightarrow> int" where
  "cooldownWindow s = (if closure_isSmartGuard s then 1000 else 300)"

definition cooldownOver :: "tick_input \<Rightarrow> state \<Rightarrow> bool" where
  "cooldownOver inp s = (now inp - lastDetectionTime s > cooldownWindow s)"

text \<open>The audio part reaches its cooldown test.\<close>

definition audioCandidate :: "tick_input \<Rightarrow> state \<Rightarrow> bool" where
  "audioCandidate inp s =
     (analyser s \<and>
      js_gt (normalizedLevel (dataArray inp)) (of_int (100 - closure_audioSensitivity s)))"

text \<open>The motion part reaches its cooldown test.\<close>

definition motionCandidate :: "tick_input \<Rightarrow> state \<Rightarrow> bool" where
  "motionCandidate inp s =
     (\<not> now inp - lastFrameTime s < 100 \<and> motionCtx inp \<and>
      (case prevFrame s of
         None \<Rightarrow> False
       | Some prevData \<Rightarrow> motionLevel (currentFrame inp) prevData > threshold (sensitivity s)))"

text \<open>The events that the two instant paths build.\<close>

definition soundEvent :: "tick_input \<Rightarrow> DetectionEvent" where
  "soundEvent inp =
     \<lparr>ev_id = newId inp, ev_timestamp = newDate inp, ev_image = audioSnapshot inp,
      ev_isSuspicious = True, ev_reason = ''Instant Sound Alert''\<rparr>"

definition motionEvent :: "tick_input \<Rightarrow> DetectionEvent" where
  "motionEvent inp =
     \<lparr>ev_id = newId inp, ev_timestamp = newDate inp, ev_image = motionSnapshot inp,
      ev_isSuspicious = True, ev_reason = ''Instant Motion Alert''\<rparr>"

subsection \<open>Sample runs\<close>

text \<open>
  A session that has run one tick: the camera is granted, and \<open>detectMotion\<close> runs with
  a loud audio buffer of 128 bins and a black 640 by 480 frame.
\<close>

definition session_start :: state where
  "session_start = rerender initial (startCamera Started initial)"

definition first_tick :: tick_input where
  "first_tick =
     \<lparr>now = 5000, videoReady = True, canvasReady = True, dataArray = replicate 128 200,
      audioCtx = True, audioSnapshot = ''data:image/jpeg;base64,AAAA'', motionCtx = True,
      currentFrame = replicate 1228800 0,
      motionSnapshot = ''data:image/jpeg;base64,BBBB'', newId = ''k3j9x0q1z'',
      newDate = 5000\<rparr>"

definition after_first_tick :: state where
  "after_first_tick = rerender session_start (detectMotion first_tick session_start)"

text \<open>A later tick of that session: silence, and a frame that has turned white.\<close>

definition second_tick :: tick_input where
  "second_tick =
     \<lparr>now = 7000, videoReady = True, canvasReady = True, dataArray = replicate 128 0,
      audioCtx = True, audioSnapshot = ''data:image/jpeg;base64,CCCC'', motionCtx = True,
      currentFrame = replicate 1228800 255,
      motionSnapshot = ''data:image/jpeg;base64,DDDD'', newId = ''p0o9i8u7y'',
      newDate = 7000\<rparr>"

definition after_second_tick :: state where
  "after_second_tick = rerender after_first_tick (detectMotion second_tick after_first_tick)"

text \<open>
  The session is stopped after its first tick and started again: the state in which the
  first tick of the second session runs.
\<close>

definition first_session_stopped :: state where
  "first_session_stopped = rerender after_first_tick (stopCamera after_first_tick)"

definition second_session :: state where
  "second_session = rerender first_session_stopped (startCamera Started first_session_stopped)"

text \<open>After the first tick the user switches Smart Guard off, and touches nothing else.\<close>

definition guard_toggled_off :: state where
  "guard_toggled_off = after_first_tick\<lparr>isSmartGuard := \<not> isSmartGuard after_first_tick\<rparr>"

text \<open>A loud tick 301ms after the detection of the first tick.\<close>

definition loud_tick :: tick_input where
  "loud_tick = first_tick\<lparr>now := 5301\<rparr>"

text \<open>
  After the first tick the user moves the audio slider from 60 to 99, and touches nothing
  else; then a tick with a faint sound (peak byte 10) and the same black frame.
\<close>

definition slider_moved :: state where
  "slider_moved = after_first_tick\<lparr>audioSensitivity := 99\<rparr>"

definition faint_tick :: tick_input where
  "faint_tick =
     second_tick\<lparr>dataArray := replicate 128 10, currentFrame := replicate 1228800 0\<rparr>"

text \<open>
  With the verification of the first tick still in flight the user switches Smart Guard
  off, moves the motion slider to 86 (the effect runs and captures Smart Guard off), and
  switches Smart Guard on again.
\<close>

definition guard_off_slider_86 :: state where
  "guard_off_slider_86 = rerender guard_toggled_off (guard_toggled_off\<lparr>sensitivity := 86\<rparr>)"

definition guard_back_on :: state where
  "guard_back_on = guard_off_slider_86\<lparr>isSmartGuard := \<not> isSmartGuard guard_off_slider_86\<rparr>"

text \<open>
  A session that is started with Smart Guard off, its state after the first tick, and
  that first tick with a canvas that delivers no 2D context to the audio part.
\<close>

definition instant_start :: state where
  "instant_start =
     rerender (initial\<lparr>isSmartGuard := \<not> isSmartGuard initial\<rparr>)
       (startCamera Started (initial\<lparr>isSmartGuard := \<not> isSmartGuard initial\<rparr>))"

definition instant_after_first_tick :: state where
  "instant_after_first_tick = rerender instant_start (detectMotion first_tick instant_start)"


text \<open>
  After the first tick the motion slider is moved to 93; then a silent tick whose frame
  differs from the black one in its first 2688 sampled pixels.
\<close>

definition slider_93 :: state where
  "slider_93 = rerender after_first_tick (after_first_tick\<lparr>sensitivity := 93\<rparr>)"

definition partly_white :: "8 word list" where
  "partly_white = replicate (16 * 2688) 255 @ replicate (1228800 - 16 * 2688) 0"

definition partly_white_tick :: tick_input where
  "partly_white_tick = second_tick\<lparr>currentFrame := partly_white\<rparr>"

text \<open>
  The single-flight invariant: at most one call of \<open>analyzeFrame\<close> is suspended, and
  \<open>isAnalyzing\<close> is set exactly while one is.
\<close>

definition single_flight :: "state \<Rightarrow> bool" where
  "single_flight s = (length (pending s) \<le> 1 \<and> (isAnalyzing s \<longleftrightarrow> pending s \<noteq> []))"

text \<open>Fifty-one events, told apart by their timestamps, in the order of insertion.\<close>

definition sample_events :: "DetectionEvent list" where
  "sample_events =
     map (\<lambda>n. \<lparr>ev_id = ''k3j9x0q1z'', ev_timestamp = int n,
                ev_image = ''data:image/jpeg;base64,AAAA'', ev_isSuspicious = True,
                ev_reason = ''Instant Motion Alert''\<rparr>) [0..<51]"

section \<open>Properties\<close>

subsection \<open>Rounding to a double\<close>

lemma round_half_even_nonneg: "0 \<le> x \<Longrightarrow> 0 \<le> round_half_even x"
  by (auto simp: round_half_even_def Let_def)

lemma round_half_even_le: "x \<le> of_int k \<Longrightarrow> round_half_even x \<le> k"
proof -
  assume le: "x \<le> of_int k"
  then have f: "\<lfloor>x\<rfloor> \<le> k" by (simp add: floor_le_iff)
  show ?thesis
  proof (cases "\<lfloor>x\<rfloor> = k")
    case True
    then have "of_int k \<le> x" by (metis of_int_floor_le)
    with le have "x = of_int k" by simp
    then show ?thesis by (simp add: round_half_even_def)
  next
    case False
    with f have "\<lfloor>x\<rfloor> + 1 \<le> k" by simp
    then show ?thesis by (auto simp: round_half_even_def Let_def)
  qed
qed

lemma binade_le:
  assumes "0 < x"
  shows "2 powi binade x \<le> x"
proof -
  obtain p q where pq: "quotient_of x = (p, q)" by (cases "quotient_of x")
  then have q: "0 < q" and x: "x = of_int p / of_int q"
    by (simp_all add: quotient_of_denom_pos quotient_of_div)
  with assms have p: "0 < p" by (simp add: zero_less_divide_iff)
  let ?e = "bitlen p - bitlen q"
  show ?thesis
  proof (cases "2 powi ?e \<le> x")
    case True
    with pq show ?thesis by (simp add: binade_def)
  next
    case False
    have bp: "1 \<le> bitlen p" using p by (simp add: bitlen_alt_def)
    have bq: "1 \<le> bitlen q" using q by (simp add: bitlen_alt_def)
    have lo: "(2 :: rat) ^ nat (bitlen p - 1) \<le> of_int p"
    proof -
      have "(2 :: int) ^ nat (bitlen p - 1) \<le> p" using bitlen_bounds [OF p] by simp
      then have "(of_int (2 ^ nat (bitlen p - 1)) :: rat) \<le> of_int p"
        by (simp only: of_int_le_iff)
      then show ?thesis by simp
    qed
    have hi: "(of_int q :: rat) \<le> 2 ^ nat (bitlen q)"
    proof -
      have "q \<le> (2 :: int) ^ nat (bitlen q)" using bitlen_bounds [OF q] by simp
      then have "(of_int q :: rat) \<le> of_int (2 ^ nat (bitlen q))"
        by (simp only: of_int_le_iff)
      then show ?thesis by simp
    qed
    have "(2 :: rat) powi (?e - 1) = 2 powi (bitlen p - 1) / 2 powi (bitlen q)"
      by (simp add: power_int_diff)
    also have "\<dots> = 2 ^ nat (bitlen p - 1) / 2 ^ nat (bitlen q)"
      using bp bq by (simp add: power_int_def)
    also have "\<dots> \<le> of_int p / of_int q"
      using lo hi q p by (intro frac_le) simp_all
    finally have "(2 :: rat) powi (?e - 1) \<le> x" by (simp add: x)
    with False pq show ?thesis by (simp add: binade_def)
  qed
qed

text \<open>\<open>binade\<close> is the exponent of its argument.\<close>

lemma binade_less:
  assumes "0 < x"
  shows "x < 2 powi (binade x + 1)"
proof -
  obtain p q where pq: "quotient_of x = (p, q)" by (cases "quotient_of x")
  then have q: "0 < q" and x: "x = of_int p / of_int q"
    by (simp_all add: quotient_of_denom_pos quotient_of_div)
  with assms have p: "0 < p" by (simp add: zero_less_divide_iff)
  let ?e = "bitlen p - bitlen q"
  show ?thesis
  proof (cases "2 powi ?e \<le> x")
    case False
    with pq show ?thesis by (simp add: binade_def)
  next
    case True
    have bp: "1 \<le> bitlen p" using p by (simp add: bitlen_alt_def)
    have bq: "1 \<le> bitlen q" using q by (simp add: bitlen_alt_def)
    have hi: "(of_int p :: rat) < 2 ^ nat (bitlen p)"
    proof -
      have "p < (2 :: int) ^ nat (bitlen p)" using bitlen_bounds [OF p] by simp
      then have "(of_int p :: rat) < of_int (2 ^ nat (bitlen p))"
        by (simp only: of_int_less_iff)
      then show ?thesis by simp
    qed
    have lo: "(2 :: rat) ^ nat (bitlen q - 1) \<le> of_int q"
    proof -
      have "(2 :: int) ^ nat (bitlen q - 1) \<le> q" using bitlen_bounds [OF q] by simp
      then have "(of_int (2 ^ nat (bitlen q - 1)) :: rat) \<le> of_int q"
        by (simp only: of_int_le_iff)
      then show ?thesis by simp
    qed
    have "of_int p / of_int q < (2 :: rat) ^ nat (bitlen p) / 2 ^ nat (bitlen q - 1)"
      using hi lo q p by (intro frac_less) simp_all
    also have "\<dots> = 2 powi (bitlen p) / 2 powi (bitlen q - 1)"
      using bp bq by (simp add: power_int_def)
    also have "\<dots> = (2 :: rat) powi (?e + 1)"
      by (simp add: power_int_diff power_int_add)
    finally have "x < (2 :: rat) powi (?e + 1)" by (simp add: x)
    with True pq show ?thesis by (simp add: binade_def)
  qed
qed

lemma fl_zero [simp]: "fl 0 = 0"
  by (simp add: fl_def)

lemma fl_nonneg: "0 \<le> x \<Longrightarrow> 0 \<le> fl x"
  by (auto simp: fl_def Let_def round_half_even_nonneg intro!: mult_nonneg_nonneg)

lemma fl_le_nat:
  assumes pos: "0 < x" and le: "x \<le> of_nat n" and small: "x < 2 ^ 53"
  shows "fl x \<le> of_nat n"
proof -
  let ?e = "binade x"
  let ?u = "(2 :: rat) powi (?e - 52)"
  have "(2 :: rat) powi ?e \<le> x" using pos by (rule binade_le)
  moreover have "(2 :: rat) powi 53 = 2 ^ 53" by (simp add: power_int_def)
  ultimately have "(2 :: rat) powi ?e < 2 powi 53" using small by simp
  then have "?e < 53" by (rule power_int_le_imp_less_exp [rotated]) simp_all
  then have e: "?e \<le> 52" by simp
  have u: "0 < ?u" by simp
  have grid: "of_nat n / ?u = (of_int (int n * 2 ^ nat (52 - ?e)) :: rat)"
    using e by (simp add: power_int_diff power_int_def nat_diff_distrib field_simps)
  have "x / ?u \<le> of_nat n / ?u" using le u by (simp add: divide_right_mono)
  then have "round_half_even (x / ?u) \<le> int n * 2 ^ nat (52 - ?e)"
    unfolding grid by (rule round_half_even_le)
  then have "(of_int (round_half_even (x / ?u)) :: rat) \<le> of_int (int n * 2 ^ nat (52 - ?e))"
    by (simp only: of_int_le_iff)
  then have "of_int (round_half_even (x / ?u)) * ?u \<le> of_int (int n * 2 ^ nat (52 - ?e)) * ?u"
    using u by (simp add: mult_right_mono)
  also have "\<dots> = of_nat n" using grid u by (simp add: field_simps)
  finally show ?thesis using pos by (simp add: fl_def Let_def)
qed

text \<open>The rounding error is at most half a unit in the last place.\<close>

lemma round_half_even_error: "\<bar>of_int (round_half_even z) - z\<bar> \<le> 1 / 2"
proof -
  have "of_int \<lfloor>z\<rfloor> \<le> z" "z < of_int \<lfloor>z\<rfloor> + 1" by linarith+
  then show ?thesis by (auto simp: round_half_even_def Let_def)
qed

lemma fl_error:
  assumes "0 < x"
  shows "\<bar>fl x - x\<bar> \<le> x / 2 ^ 53"
proof -
  let ?u = "(2 :: rat) powi (binade x - 52)"
  have u: "0 < ?u" by simp
  have "fl x - x = (of_int (round_half_even (x / ?u)) - x / ?u) * ?u"
    using assms u by (simp add: fl_def Let_def field_simps)
  then have "\<bar>fl x - x\<bar> = \<bar>of_int (round_half_even (x / ?u)) - x / ?u\<bar> * ?u"
    using u by (simp add: abs_mult)
  also have "\<dots> \<le> 1 / 2 * ?u"
    using u round_half_even_error [of "x / ?u"] by (intro mult_right_mono) simp_all
  also have "\<dots> = 2 powi binade x / 2 ^ 53"
  proof -
    have c: "(2 :: rat) powi 52 = 2 ^ 52" by (simp add: power_int_def)
    have "?u = 2 powi binade x / 2 powi 52" by (rule power_int_diff) simp
    then show ?thesis by (simp add: c)
  qed
  also have "\<dots> \<le> x / 2 ^ 53"
    using binade_le [OF assms] by (simp add: divide_right_mono)
  finally show ?thesis .
qed

subsection \<open>The render after a step\<close>

text \<open>A render changes nothing but the two captured copies.\<close>

lemma install_fields [simp]:
  "isMonitoring (install s) = isMonitoring s"
  "stream (install s) = stream s"
  "isSuspicious (install s) = isSuspicious s"
  "events (install s) = events s"
  "isMuted (install s) = isMuted s"
  "sensitivity (install s) = sensitivity s"
  "audioSensitivity (install s) = audioSensitivity s"
  "isSmartGuard (install s) = isSmartGuard s"
  "isAnalyzing (install s) = isAnalyzing s"
  "lastMotionDetected (install s) = lastMotionDetected s"
  "audioLevel (install s) = audioLevel s"
  "currentMotionLevel (install s) = currentMotionLevel s"
  "prevFrame (install s) = prevFrame s"
  "lastFrameTime (install s) = lastFrameTime s"
  "lastDetectionTime (install s) = lastDetectionTime s"
  "analyser (install s) = analyser s"
  "pending (install s) = pending s"
  "closure_isSmartGuard (install s) = isSmartGuard s"
  "closure_audioSensitivity (install s) = audioSensitivity s"
  by (simp_all add: install_def)

lemma rerender_fields [simp]:
  "isMonitoring (rerender s s') = isMonitoring s'"
  "stream (rerender s s') = stream s'"
  "isSuspicious (rerender s s') = isSuspicious s'"
  "events (rerender s s') = events s'"
  "isMuted (rerender s s') = isMuted s'"
  "sensitivity (rerender s s') = sensitivity s'"
  "audioSensitivity (rerender s s') = audioSensitivity s'"
  "isSmartGuard (rerender s s') = isSmartGuard s'"
  "isAnalyzing (rerender s s') = isAnalyzing s'"
  "lastMotionDetected (rerender s s') = lastMotionDetected s'"
  "audioLevel (rerender s s') = audioLevel s'"
  "currentMotionLevel (rerender s s') = currentMotionLevel s'"
  "prevFrame (rerender s s') = prevFrame s'"
  "lastFrameTime (rerender s s') = lastFrameTime s'"
  "lastDetectionTime (rerender s s') = lastDetectionTime s'"
  "analyser (rerender s s') = analyser s'"
  "pending (rerender s s') = pending s'"
  by (simp_all add: rerender_def)

lemma rerender_same: "rerender s s = s"
  by (simp add: rerender_def)

subsection \<open>The two parts of a tick, by outcome of the gate\<close>

lemmas gate_defs = cooldownOver_def cooldownWindow_def audioCandidate_def motionCandidate_def

lemma audioStep_rejected:
  "\<not> (audioCandidate inp s \<and> cooldownOver inp s) \<Longrightarrow>
   audioStep inp s = (if analyser s then s\<lparr>audioLevel := normalizedLevel (dataArray inp)\<rparr> else s)"
  by (auto simp: audioStep_def gate_defs Let_def)

lemma audioStep_accepted:
  "audioCandidate inp s \<Longrightarrow> cooldownOver inp s \<Longrightarrow>
   audioStep inp s =
     (if \<not> audioCtx inp
      then s\<lparr>audioLevel := normalizedLevel (dataArray inp), lastDetectionTime := now inp\<rparr>
      else if closure_isSmartGuard s
      then analyzeFrame (audioSnapshot inp)
             (s\<lparr>audioLevel := normalizedLevel (dataArray inp), lastDetectionTime := now inp\<rparr>)
      else s\<lparr>audioLevel := normalizedLevel (dataArray inp), lastDetectionTime := now inp,
             isSuspicious := True, events := pushEvent (soundEvent inp) (events s)\<rparr>)"
  by (auto simp: audioStep_def gate_defs soundEvent_def Let_def)

lemma motionStep_rejected:
  "\<not> (motionCandidate inp s \<and> cooldownOver inp s) \<Longrightarrow>
   events (motionStep inp s) = events s \<and> pending (motionStep inp s) = pending s \<and>
   isSuspicious (motionStep inp s) = isSuspicious s \<and>
   isAnalyzing (motionStep inp s) = isAnalyzing s \<and>
   lastDetectionTime (motionStep inp s) = lastDetectionTime s"
  by (auto simp: motionStep_def compareFrames_def gate_defs Let_def split: option.splits)

lemma motionStep_accepted:
  "motionCandidate inp s \<Longrightarrow> cooldownOver inp s \<Longrightarrow> prevFrame s = Some prevData \<Longrightarrow>
   motionStep inp s =
     (if closure_isSmartGuard s
      then (analyzeFrame (motionSnapshot inp)
             (s\<lparr>lastFrameTime := now inp,
                currentMotionLevel := motionLevel (currentFrame inp) prevData,
                lastMotionDetected := True, lastDetectionTime := now inp\<rparr>))
               \<lparr>prevFrame := Some (currentFrame inp)\<rparr>
      else s\<lparr>lastFrameTime := now inp,
             currentMotionLevel := motionLevel (currentFrame inp) prevData,
             lastMotionDetected := True, lastDetectionTime := now inp,
             isSuspicious := True, events := pushEvent (motionEvent inp) (events s),
             prevFrame := Some (currentFrame inp)\<rparr>)"
  by (auto simp: motionStep_def compareFrames_def gate_defs motionEvent_def Let_def
      split: option.splits)

text \<open>The cells that \<open>analyzeFrame\<close> and the audio part leave alone.\<close>

lemma analyzeFrame_fields [simp]:
  "events (analyzeFrame img s) = events s"
  "isSuspicious (analyzeFrame img s) = isSuspicious s"
  "lastDetectionTime (analyzeFrame img s) = lastDetectionTime s"
  "isSmartGuard (analyzeFrame img s) = isSmartGuard s"
  "lastFrameTime (analyzeFrame img s) = lastFrameTime s"
  "prevFrame (analyzeFrame img s) = prevFrame s"
  "sensitivity (analyzeFrame img s) = sensitivity s"
  "currentMotionLevel (analyzeFrame img s) = currentMotionLevel s"
  "lastMotionDetected (analyzeFrame img s) = lastMotionDetected s"
  "isMonitoring (analyzeFrame img s) = isMonitoring s"
  "closure_isSmartGuard (analyzeFrame img s) = closure_isSmartGuard s"
  "closure_audioSensitivity (analyzeFrame img s) = closure_audioSensitivity s"
  "audioSensitivity (analyzeFrame img s) = audioSensitivity s"
  "analyser (analyzeFrame img s) = analyser s"
  by (simp_all add: analyzeFrame_def)

lemma audioStep_fields [simp]:
  "isSmartGuard (audioStep inp s) = isSmartGuard s"
  "lastFrameTime (audioStep inp s) = lastFrameTime s"
  "prevFrame (audioStep inp s) = prevFrame s"
  "sensitivity (audioStep inp s) = sensitivity s"
  "currentMotionLevel (audioStep inp s) = currentMotionLevel s"
  "lastMotionDetected (audioStep inp s) = lastMotionDetected s"
  "isMonitoring (audioStep inp s) = isMonitoring s"
  "closure_isSmartGuard (audioStep inp s) = closure_isSmartGuard s"
  "closure_audioSensitivity (audioStep inp s) = closure_audioSensitivity s"
  "audioSensitivity (audioStep inp s) = audioSensitivity s"
  "analyser (audioStep inp s) = analyser s"
  by (simp_all add: audioStep_def Let_def)

lemma motionCandidate_audioStep [simp]:
  "motionCandidate inp (audioStep inp s) = motionCandidate inp s"
  by (simp add: motionCandidate_def split: option.splits)

lemma audioStep_rejected_fields:
  assumes "\<not> (audioCandidate inp s \<and> cooldownOver inp s)"
  shows "events (audioStep inp s) = events s" "pending (audioStep inp s) = pending s"
    "isSuspicious (audioStep inp s) = isSuspicious s"
    "isAnalyzing (audioStep inp s) = isAnalyzing s"
    "lastDetectionTime (audioStep inp s) = lastDetectionTime s"
    "cooldownOver inp (audioStep inp s) = cooldownOver inp s"
  by (simp_all add: audioStep_rejected [OF assms] gate_defs)

lemma audioStep_accepted_time:
  "audioCandidate inp s \<Longrightarrow> cooldownOver inp s \<Longrightarrow>
   lastDetectionTime (audioStep inp s) = now inp"
  by (simp add: audioStep_accepted)

lemma motionStep_accepted_time:
  assumes "motionCandidate inp s" "cooldownOver inp s"
  shows "lastDetectionTime (motionStep inp s) = now inp"
proof -
  from assms(1) obtain prevData where "prevFrame s = Some prevData"
    by (auto simp: motionCandidate_def split: option.splits)
  from motionStep_accepted [OF assms this] show ?thesis by simp
qed

lemma not_cooldownOver_at_now: "lastDetectionTime s = now inp \<Longrightarrow> \<not> cooldownOver inp s"
  by (simp add: gate_defs)

text \<open>Inside the window a whole tick accepts nothing.\<close>

lemma detectMotion_within_cooldown:
  assumes "\<not> cooldownOver inp s"
  shows "events (detectMotion inp s) = events s \<and> pending (detectMotion inp s) = pending s \<and>
   isSuspicious (detectMotion inp s) = isSuspicious s \<and>
   isAnalyzing (detectMotion inp s) = isAnalyzing s \<and>
   lastDetectionTime (detectMotion inp s) = lastDetectionTime s"
proof -
  have a: "\<not> (audioCandidate inp s \<and> cooldownOver inp s)" using assms by simp
  have m: "\<not> (motionCandidate inp (audioStep inp s) \<and> cooldownOver inp (audioStep inp s))"
    using assms by (simp add: audioStep_rejected_fields [OF a])
  show ?thesis
    using motionStep_rejected [OF m] by (simp add: detectMotion_def audioStep_rejected_fields [OF a])
qed


subsection \<open>The cooldown\<close>

lemma detectMotion_accepted_time:
  assumes run: "isMonitoring s" "videoReady inp" "canvasReady inp"
    and cand: "audioCandidate inp s \<or> motionCandidate inp s"
    and over: "cooldownOver inp s"
  shows "lastDetectionTime (detectMotion inp s) = now inp"
proof (cases "audioCandidate inp s")
  case True
  then have t: "lastDetectionTime (audioStep inp s) = now inp"
    using over by (rule audioStep_accepted_time)
  then have "\<not> (motionCandidate inp (audioStep inp s) \<and> cooldownOver inp (audioStep inp s))"
    by (simp add: not_cooldownOver_at_now)
  from motionStep_rejected [OF this] t run show ?thesis
    by (simp add: detectMotion_def)
next
  case False
  then have a: "\<not> (audioCandidate inp s \<and> cooldownOver inp s)" by simp
  have "motionCandidate inp (audioStep inp s)" using cand False by simp
  moreover have "cooldownOver inp (audioStep inp s)"
    using over by (simp add: audioStep_rejected_fields [OF a])
  ultimately have "lastDetectionTime (motionStep inp (audioStep inp s)) = now inp"
    by (rule motionStep_accepted_time)
  with run show ?thesis by (simp add: detectMotion_def)
qed

subsection \<open>The audio peak\<close>

lemma Math_max_nonempty: "xs \<noteq> [] \<Longrightarrow> Math_max xs = Num (Max (set xs))"
proof (induction xs)
  case Nil
  then show ?case by simp
next
  case (Cons x xs)
  show ?case
  proof (cases "xs = []")
    case True
    then show ?thesis by simp
  next
    case False
    with Cons.IH have "Math_max xs = Num (Max (set xs))" by simp
    with False show ?thesis by (simp add: max.commute)
  qed
qed

lemma normalizedLevel_nonempty:
  assumes "arr \<noteq> []"
  shows "normalizedLevel arr = Num (of_nat (Max (unat ` set arr)) / 255 * 100)"
proof -
  let ?f = "\<lambda>b::8 word. (of_nat (unat b) :: rat)"
  have mono: "mono (of_nat :: nat \<Rightarrow> rat)" by (simp add: mono_def)
  have "Max (set (map ?f arr)) = of_nat (Max (unat ` set arr))"
    using assms mono_Max_commute [OF mono, of "unat ` set arr"]
    by (simp add: image_image)
  with assms show ?thesis
    by (simp add: normalizedLevel_def Math_max_nonempty)
qed

lemma normalizedLevel_empty: "normalizedLevel [] = NegInfinity"
  by (simp add: normalizedLevel_def)

lemma peak_le_255: "arr \<noteq> [] \<Longrightarrow> Max (unat ` set arr) \<le> 255" for arr :: "8 word list"
proof -
  assume "arr \<noteq> []"
  moreover have "\<forall>b \<in> set arr. unat b \<le> 255"
  proof
    fix b :: "8 word"
    have "unat b < 2 ^ LENGTH(8)" by (rule unsigned_less)
    then show "unat b \<le> 255" by simp
  qed
  ultimately show ?thesis by simp
qed

lemma Math_max_replicate: "Math_max (replicate (Suc n) x) = Num x"
  by (induction n) simp_all

lemma normalizedLevel_replicate:
  "normalizedLevel (replicate (Suc n) b) = Num (of_nat (unat b) / 255 * 100)"
  using Math_max_replicate [of n "of_nat (unat b)"]
  by (simp add: normalizedLevel_def del: replicate.simps)

subsection \<open>The motion score\<close>

lemma pixelChanged_same: "\<not> pixelChanged data data i"
  by (simp add: pixelChanged_def absDiff_def byteAt_def)

lemma countDiff_step:
  "i < length data \<Longrightarrow>
   countDiff data prevData i diff =
     countDiff data prevData (i + 16) (if pixelChanged data prevData i then diff + 1 else diff)"
  by (subst countDiff.simps) simp

lemma countDiff_stop: "\<not> i < length data \<Longrightarrow> countDiff data prevData i diff = diff"
  by (subst countDiff.simps) simp

lemma countDiff_same_aux: "prevData = data \<Longrightarrow> countDiff data prevData i diff = diff"
proof (induction data prevData i diff rule: countDiff.induct)
  case (1 data prevData i diff)
  show ?case
  proof (cases "i < length data")
    case True
    have "countDiff data prevData i diff = countDiff data prevData (i + 16) diff"
      using True "1.prems" by (simp add: countDiff_step pixelChanged_same)
    also have "\<dots> = diff"
      using "1.IH" [OF True "1.prems"] "1.prems" by (simp add: pixelChanged_same)
    finally show ?thesis .
  next
    case False
    then show ?thesis by (rule countDiff_stop)
  qed
qed

lemma countDiff_same: "countDiff data data i diff = diff"
  by (simp add: countDiff_same_aux)

lemma countDiff_bound: "countDiff data prevData i diff \<le> diff + (length data + 15 - i) div 16"
proof (induction data prevData i diff rule: countDiff.induct)
  case (1 data prevData i diff)
  show ?case
  proof (cases "i < length data")
    case True
    let ?d = "if pixelChanged data prevData i then diff + 1 else diff"
    have "countDiff data prevData i diff = countDiff data prevData (i + 16) ?d"
      using True by (rule countDiff_step)
    also have "\<dots> \<le> ?d + (length data + 15 - (i + 16)) div 16"
      using "1.IH" [OF True] .
    also have "\<dots> \<le> diff + 1 + (length data + 15 - (i + 16)) div 16"
      by simp
    also have "\<dots> = diff + (length data + 15 - i) div 16"
    proof -
      have "length data + 15 - i = (length data + 15 - (i + 16)) + 16"
        using True by linarith
      then show ?thesis by simp
    qed
    finally show ?thesis .
  next
    case False
    then show ?thesis by (simp add: countDiff_stop)
  qed
qed


lemma fl_76800: "fl 76800 = 76800"
  by code_simp

lemma fl_canvas: "fl (of_nat (canvas_width * canvas_height) / 4) = 76800"
  by (simp add: canvas_width_def canvas_height_def fl_76800)

lemma motionLevel_count:
  "motionLevel data prevData = fl (fl (of_nat (countDiff data prevData 0 0) / 76800) * 100)"
  by (simp only: motionLevel_def fl_canvas)

lemma motionLevel_nonneg: "0 \<le> motionLevel data prevData"
  unfolding motionLevel_count by (intro fl_nonneg mult_nonneg_nonneg divide_nonneg_nonneg) simp_all

lemma score_le_100:
  assumes "c \<le> 76800"
  shows "fl (fl (of_nat c / 76800) * 100) \<le> 100"
proof -
  let ?x = "(of_nat c :: rat) / 76800"
  have x1: "?x \<le> 1" using assms by simp
  have q: "fl ?x \<le> 1"
  proof (cases "c = 0")
    case True
    then show ?thesis by simp
  next
    case False
    then have "0 < ?x" by simp
    moreover have "?x \<le> of_nat 1" using x1 by simp
    moreover have "?x < 2 ^ 53" using x1 by simp
    ultimately have "fl ?x \<le> of_nat 1" by (rule fl_le_nat)
    then show ?thesis by simp
  qed
  have nn: "0 \<le> fl ?x" by (intro fl_nonneg) simp
  let ?y = "fl ?x * 100"
  show ?thesis
  proof (cases "?y = 0")
    case True
    then show ?thesis by simp
  next
    case False
    with nn have "0 < ?y" by simp
    moreover have "?y \<le> of_nat 100" using q by simp
    moreover have "?y < 2 ^ 53" using q by simp
    ultimately have "fl ?y \<le> of_nat 100" by (rule fl_le_nat)
    then show ?thesis by simp
  qed
qed

lemma motionLevel_le_100:
  assumes "length data = 4 * canvas_width * canvas_height"
  shows "motionLevel data prevData \<le> 100"
proof -
  have "countDiff data prevData 0 0 \<le> 0 + (length data + 15 - 0) div 16"
    by (rule countDiff_bound)
  also have "\<dots> = 76800"
    using assms by (simp add: canvas_width_def canvas_height_def)
  finally show ?thesis unfolding motionLevel_count by (rule score_le_100)
qed

lemma motionLevel_same: "motionLevel data data = 0"
  by (simp add: motionLevel_count countDiff_same)

lemma threshold_floor: "1 / 2 \<le> threshold sens"
  by (simp add: threshold_def)

lemma threshold_in_range: "sens \<le> 99 \<Longrightarrow> threshold sens = (100 - of_int sens) / 2"
  by (simp add: threshold_def max_def)

lemma motionStep_first_frame:
  assumes "prevFrame s = None"
  shows "motionStep inp s =
     (if now inp - lastFrameTime s < 100 then s
      else if \<not> motionCtx inp then s\<lparr>lastFrameTime := now inp\<rparr>
      else s\<lparr>lastFrameTime := now inp, prevFrame := Some (currentFrame inp)\<rparr>)"
  using assms by (simp add: motionStep_def Let_def)

lemma motionStep_compare:
  assumes "\<not> now inp - lastFrameTime s < 100" "motionCtx inp" "prevFrame s = Some prevData"
  shows "currentMotionLevel (motionStep inp s) = motionLevel (currentFrame inp) prevData"
    and "lastMotionDetected (motionStep inp s) =
      (lastMotionDetected s \<or> motionLevel (currentFrame inp) prevData > threshold (sensitivity s))"
  using assms by (auto simp: motionStep_def compareFrames_def Let_def)


lemma countDiff_card:
  "16 dvd i \<Longrightarrow>
   countDiff data prevData i diff =
     diff + card {j. i \<le> j \<and> j < length data \<and> 16 dvd j \<and> pixelChanged data prevData j}"
proof (induction data prevData i diff rule: countDiff.induct)
  case (1 data prevData i diff)
  let ?S = "\<lambda>k. {j. k \<le> j \<and> j < length data \<and> 16 dvd j \<and> pixelChanged data prevData j}"
  show ?case
  proof (cases "i < length data")
    case True
    have d: "16 dvd i + 16" using "1.prems" by simp
    have fin: "finite (?S (i + 16))" by simp
    have notin: "i \<notin> ?S (i + 16)" by simp
    have key: "\<And>j. (i \<le> j \<and> 16 dvd j) = (j = i \<or> (i + 16 \<le> j \<and> 16 dvd j))"
      using "1.prems" by presburger
    have "?S i = {j. (i \<le> j \<and> 16 dvd j) \<and> j < length data \<and> pixelChanged data prevData j}"
      by blast
    also have "\<dots> = {j. (j = i \<or> (i + 16 \<le> j \<and> 16 dvd j)) \<and> j < length data \<and>
                       pixelChanged data prevData j}"
      by (simp only: key)
    also have "\<dots> = {j. j = i \<and> pixelChanged data prevData j} \<union> ?S (i + 16)"
      using True by blast
    also have "{j. j = i \<and> pixelChanged data prevData j} =
        (if pixelChanged data prevData i then {i} else {})"
      by auto
    finally have split:
      "?S i = (if pixelChanged data prevData i then insert i (?S (i + 16)) else ?S (i + 16))"
      by simp
    have "countDiff data prevData i diff =
        countDiff data prevData (i + 16) (if pixelChanged data prevData i then diff + 1 else diff)"
      using True by (rule countDiff_step)
    also have "\<dots> = (if pixelChanged data prevData i then diff + 1 else diff) + card (?S (i + 16))"
      using "1.IH" [OF True d] .
    also have "\<dots> = diff + card (?S i)"
      using fin notin by (simp add: split)
    finally show ?thesis .
  next
    case False
    then have "?S i = {}" by auto
    with False show ?thesis by (simp add: countDiff_stop)
  qed
qed

lemma card_sampled: "card {j. j < 16 * n \<and> 16 dvd j} = n" for n :: nat
proof -
  have "{j. j < 16 * n \<and> 16 dvd j} = (\<lambda>k. 16 * k) ` {..<n}"
    by (auto simp: dvd_def)
  moreover have "inj_on (\<lambda>k::nat. 16 * k) {..<n}" by (simp add: inj_on_def)
  ultimately show ?thesis by (simp add: card_image)
qed


lemma motionLevel_fraction:
  assumes "length data = 4 * canvas_width * canvas_height"
  shows "motionLevel data prevData =
     fl (fl (of_nat (card {j. j < length data \<and> 16 dvd j \<and> pixelChanged data prevData j}) /
             of_nat (card {j. j < length data \<and> 16 dvd j})) * 100)"
proof -
  have "length data = 16 * 76800"
    using assms by (simp add: canvas_width_def canvas_height_def)
  then have "card {j. j < length data \<and> 16 dvd j} = 76800"
    using card_sampled [of 76800] by simp
  moreover have "countDiff data prevData 0 0 =
      card {j. j < length data \<and> 16 dvd j \<and> pixelChanged data prevData j}"
    using countDiff_card [of 0 data prevData 0] by simp
  ultimately show ?thesis
    by (simp add: motionLevel_count)
qed

lemma pixelChanged_in_range:
  assumes "i + 2 < length data" "i + 2 < length prevData"
  shows "pixelChanged data prevData i \<longleftrightarrow>
     \<bar>uint (data ! i) - uint (prevData ! i)\<bar> +
     \<bar>uint (data ! (i + 1)) - uint (prevData ! (i + 1))\<bar> +
     \<bar>uint (data ! (i + 2)) - uint (prevData ! (i + 2))\<bar> > 45"
  using assms by (simp add: pixelChanged_def absDiff_def byteAt_def)

text \<open>A frame whose first \<open>k\<close> sampled pixels are white, against the black frame.\<close>

lemma countDiff_prefix:
  assumes k: "k \<le> 76800"
  shows "countDiff (replicate (16 * k) 255 @ replicate (1228800 - 16 * k) 0)
           (replicate 1228800 0) 0 0 = k"
proof -
  let ?A = "replicate (16 * k) (255 :: 8 word) @ replicate (1228800 - 16 * k) 0"
  let ?B = "replicate 1228800 (0 :: 8 word)"
  have len: "length ?A = 1228800" using k by simp
  have ch: "pixelChanged ?A ?B j \<longleftrightarrow> j < 16 * k" if j: "j < 1228800" "16 dvd j" for j
  proof -
    from j(2) obtain a where a: "j = 16 * a" by (auto simp: dvd_def)
    with j(1) have "a < 76800" by simp
    with a have j2: "j + 2 < 1228800" by simp
    show ?thesis
    proof (cases "j < 16 * k")
      case True
      with a have "a < k" by simp
      with a have "j + 2 < 16 * k" by simp
      with True j2 len show ?thesis
        by (simp add: pixelChanged_in_range nth_append)
    next
      case False
      with j2 len show ?thesis
        by (simp add: pixelChanged_in_range nth_append)
    qed
  qed
  have "{j. 0 \<le> j \<and> j < length ?A \<and> 16 dvd j \<and> pixelChanged ?A ?B j} =
      {j. j < 16 * k \<and> 16 dvd j}"
    using ch k len by auto
  with countDiff_card [of 0 ?A ?B 0] card_sampled [of k] show ?thesis by simp
qed

lemma motionLevel_white_black:
  "motionLevel (replicate 1228800 255) (replicate 1228800 0) = 100"
proof -
  have "countDiff (replicate 1228800 255) (replicate 1228800 0) 0 0 = 76800"
    using countDiff_prefix [of 76800] by simp
  moreover have "fl (fl (76800 / 76800) * 100) = 100" by code_simp
  ultimately show ?thesis by (simp add: motionLevel_count)
qed

text \<open>
  The five pairs of a sensitivity and a count of changed samples whose exact quotient
  equals the threshold: the double lies above it.
\<close>

lemma on_threshold_points:
  "fl (fl (2688 / 76800) * 100) > threshold 93"
  "fl (fl (5376 / 76800) * 100) > threshold 86"
  "fl (fl (10752 / 76800) * 100) > threshold 72"
  "fl (fl (21120 / 76800) * 100) > threshold 45"
  "fl (fl (21504 / 76800) * 100) > threshold 44"
  unfolding threshold_def by code_simp+

lemma motionLevel_partly_white:
  "motionLevel partly_white (replicate 1228800 0) = 7 / 2 + 1 / 2 ^ 51"
proof -
  have "countDiff partly_white (replicate 1228800 0) 0 0 = 2688"
    unfolding partly_white_def by (rule countDiff_prefix) simp
  moreover have "fl (fl (2688 / 76800) * 100) = 7 / 2 + 1 / 2 ^ 51" by code_simp
  ultimately show ?thesis by (simp add: motionLevel_count)
qed

subsection \<open>The sample runs\<close>

lemma level_200: "normalizedLevel (replicate 128 200) = Num (4000 / 51)"
  using normalizedLevel_replicate [of 127 200] by simp

lemma level_10: "normalizedLevel (replicate 128 10) = Num (200 / 51)"
  using normalizedLevel_replicate [of 127 10] by simp

lemma level_0: "normalizedLevel (replicate 128 0) = Num 0"
  using normalizedLevel_replicate [of 127 0] by simp

lemmas run_defs =
  detectMotion_def audioStep_def motionStep_def compareFrames_def analyzeFrame_def
  startCamera_def stopCamera_def rerender_def install_def first_tick_def second_tick_def
  level_200 level_10 level_0 motionLevel_white_black motionLevel_same threshold_def Let_def

lemma session_start_eq:
  "session_start =
     \<lparr>isMonitoring = True, stream = True, isSuspicious = False, events = [],
      isMuted = False, sensitivity = 85, audioSensitivity = 60, isSmartGuard = True,
      isAnalyzing = False, lastMotionDetected = False, audioLevel = Num 0,
      currentMotionLevel = 0, prevFrame = None, lastFrameTime = 0,
      lastDetectionTime = 0, analyser = True, pending = [],
      closure_isSmartGuard = True, closure_audioSensitivity = 60\<rparr>"
  by (simp add: session_start_def initial_def run_defs)

lemma after_first_tick_eq:
  "after_first_tick =
     \<lparr>isMonitoring = True, stream = True, isSuspicious = False, events = [],
      isMuted = False, sensitivity = 85, audioSensitivity = 60, isSmartGuard = True,
      isAnalyzing = True, lastMotionDetected = False, audioLevel = Num (4000 / 51),
      currentMotionLevel = 0, prevFrame = Some (replicate 1228800 0), lastFrameTime = 5000,
      lastDetectionTime = 5000, analyser = True,
      pending = [''data:image/jpeg;base64,AAAA''],
      closure_isSmartGuard = True, closure_audioSensitivity = 60\<rparr>"
  by (simp add: after_first_tick_def session_start_eq run_defs)

lemma after_second_tick_eq:
  "after_second_tick =
     \<lparr>isMonitoring = True, stream = True, isSuspicious = False, events = [],
      isMuted = False, sensitivity = 85, audioSensitivity = 60, isSmartGuard = True,
      isAnalyzing = True, lastMotionDetected = True, audioLevel = Num 0,
      currentMotionLevel = 100, prevFrame = Some (replicate 1228800 255), lastFrameTime = 7000,
      lastDetectionTime = 7000, analyser = True,
      pending = [''data:image/jpeg;base64,AAAA''],
      closure_isSmartGuard = True, closure_audioSensitivity = 60\<rparr>"
  by (simp add: after_second_tick_def after_first_tick_eq run_defs)

lemma second_session_eq:
  "second_session =
     \<lparr>isMonitoring = True, stream = True, isSuspicious = False, events = [],
      isMuted = False, sensitivity = 85, audioSensitivity = 60, isSmartGuard = True,
      isAnalyzing = True, lastMotionDetected = False, audioLevel = Num (4000 / 51),
      currentMotionLevel = 0, prevFrame = Some (replicate 1228800 0), lastFrameTime = 5000,
      lastDetectionTime = 5000, analyser = True,
      pending = [''data:image/jpeg;base64,AAAA''],
      closure_isSmartGuard = True, closure_audioSensitivity = 60\<rparr>"
  by (simp add: second_session_def first_session_stopped_def after_first_tick_eq run_defs)

lemma guard_toggled_off_eq:
  "guard_toggled_off =
     \<lparr>isMonitoring = True, stream = True, isSuspicious = False, events = [],
      isMuted = False, sensitivity = 85, audioSensitivity = 60, isSmartGuard = False,
      isAnalyzing = True, lastMotionDetected = False, audioLevel = Num (4000 / 51),
      currentMotionLevel = 0, prevFrame = Some (replicate 1228800 0), lastFrameTime = 5000,
      lastDetectionTime = 5000, analyser = True,
      pending = [''data:image/jpeg;base64,AAAA''],
      closure_isSmartGuard = True, closure_audioSensitivity = 60\<rparr>"
  by (simp add: guard_toggled_off_def after_first_tick_eq)

lemma slider_moved_eq:
  "slider_moved =
     \<lparr>isMonitoring = True, stream = True, isSuspicious = False, events = [],
      isMuted = False, sensitivity = 85, audioSensitivity = 99, isSmartGuard = True,
      isAnalyzing = True, lastMotionDetected = False, audioLevel = Num (4000 / 51),
      currentMotionLevel = 0, prevFrame = Some (replicate 1228800 0), lastFrameTime = 5000,
      lastDetectionTime = 5000, analyser = True,
      pending = [''data:image/jpeg;base64,AAAA''],
      closure_isSmartGuard = True, closure_audioSensitivity = 60\<rparr>"
  by (simp add: slider_moved_def after_first_tick_eq)

lemma guard_back_on_eq:
  "guard_back_on =
     \<lparr>isMonitoring = True, stream = True, isSuspicious = False, events = [],
      isMuted = False, sensitivity = 86, audioSensitivity = 60, isSmartGuard = True,
      isAnalyzing = True, lastMotionDetected = False, audioLevel = Num (4000 / 51),
      currentMotionLevel = 0, prevFrame = Some (replicate 1228800 0), lastFrameTime = 5000,
      lastDetectionTime = 5000, analyser = True,
      pending = [''data:image/jpeg;base64,AAAA''],
      closure_isSmartGuard = False, closure_audioSensitivity = 60\<rparr>"
  by (simp add: guard_back_on_def guard_off_slider_86_def guard_toggled_off_eq run_defs)



lemma slider_93_eq:
  "slider_93 =
     \<lparr>isMonitoring = True, stream = True, isSuspicious = False, events = [],
      isMuted = False, sensitivity = 93, audioSensitivity = 60, isSmartGuard = True,
      isAnalyzing = True, lastMotionDetected = False, audioLevel = Num (4000 / 51),
      currentMotionLevel = 0, prevFrame = Some (replicate 1228800 0), lastFrameTime = 5000,
      lastDetectionTime = 5000, analyser = True,
      pending = [''data:image/jpeg;base64,AAAA''],
      closure_isSmartGuard = True, closure_audioSensitivity = 60\<rparr>"
  by (simp add: slider_93_def after_first_tick_eq run_defs)

lemma reachable_session_start: "reachable session_start"
  unfolding session_start_def by (rule reachable_step [OF reachable_initial step_start])

lemma reachable_after_first_tick: "reachable after_first_tick"
  unfolding after_first_tick_def by (rule reachable_step [OF reachable_session_start step_tick])

lemma reachable_after_second_tick: "reachable after_second_tick"
  unfolding after_second_tick_def
  by (rule reachable_step [OF reachable_after_first_tick step_tick])

lemma reachable_second_session: "reachable second_session"
  unfolding second_session_def first_session_stopped_def
  by (intro reachable_step [OF _ step_start] reachable_step [OF _ step_stop]
      reachable_after_first_tick)

lemma reachable_guard_toggled_off: "reachable guard_toggled_off"
  unfolding guard_toggled_off_def
  by (rule reachable_step [OF reachable_after_first_tick step_smartGuard])

lemma reachable_slider_moved: "reachable slider_moved"
  unfolding slider_moved_def
  by (rule reachable_step [OF reachable_after_first_tick step_audioSensitivity]) simp_all

lemma reachable_guard_back_on: "reachable guard_back_on"
  unfolding guard_back_on_def guard_off_slider_86_def
  by (intro reachable_step [OF _ step_smartGuard] reachable_step [OF _ step_sensitivity]
      reachable_guard_toggled_off) simp_all

lemma reachable_instant_start: "reachable instant_start"
  unfolding instant_start_def
  by (intro reachable_step [OF _ step_start] reachable_step [OF _ step_smartGuard]
      reachable_initial)

lemma reachable_instant_after_first_tick: "reachable instant_after_first_tick"
  unfolding instant_after_first_tick_def
  by (rule reachable_step [OF reachable_instant_start step_tick])

lemma reachable_slider_93: "reachable slider_93"
  unfolding slider_93_def
  by (rule reachable_step [OF reachable_after_first_tick step_sensitivity]) simp_all

subsection \<open>The motion threshold\<close>

text \<open>
  Claim C2.  For a sensitivity from 1 to 99 the motion threshold is
  \<open>max(0.5, (100 - sensitivity) / 2)\<close>, which is at least 0.5 (and in that range equal to
  \<open>(100 - sensitivity) / 2\<close>).  When the motion part compares two frames, the candidate
  condition holds, and \<open>lastMotionDetected\<close> is raised, exactly when the motion score, the
  double that line 253 computes, is strictly greater than that threshold.
\<close>

theorem motion_threshold:
  "(1 \<le> sens \<and> sens \<le> 99 \<longrightarrow>
      threshold sens = max (1 / 2) ((100 - of_int sens) / 2) \<and> 1 / 2 \<le> threshold sens \<and>
      threshold sens = (100 - of_int sens) / 2) \<and>
   (\<not> now inp - lastFrameTime s < 100 \<and> motionCtx inp \<and> prevFrame s = Some prevData \<longrightarrow>
      (motionCandidate inp s \<longleftrightarrow>
         motionLevel (currentFrame inp) prevData > max (1 / 2) ((100 - of_int (sensitivity s)) / 2)) \<and>
      (lastMotionDetected (motionStep inp s) \<longleftrightarrow>
         lastMotionDetected s \<or>
         motionLevel (currentFrame inp) prevData > max (1 / 2) ((100 - of_int (sensitivity s)) / 2)))"
proof (intro conjI impI)
  show "threshold sens = max (1 / 2) ((100 - of_int sens) / 2)"
    by (simp add: threshold_def)
  show "1 / 2 \<le> threshold sens" by (rule threshold_floor)
  assume "1 \<le> sens \<and> sens \<le> 99"
  then show "threshold sens = (100 - of_int sens) / 2" by (simp add: threshold_in_range)
next
  assume h: "\<not> now inp - lastFrameTime s < 100 \<and> motionCtx inp \<and> prevFrame s = Some prevData"
  have t: "threshold (sensitivity s) = max (1 / 2) ((100 - of_int (sensitivity s)) / 2)"
    by (simp add: threshold_def)
  show "motionCandidate inp s \<longleftrightarrow>
         motionLevel (currentFrame inp) prevData > max (1 / 2) ((100 - of_int (sensitivity s)) / 2)"
    using h by (simp add: motionCandidate_def t)
  show "lastMotionDetected (motionStep inp s) \<longleftrightarrow>
         lastMotionDetected s \<or>
         motionLevel (currentFrame inp) prevData > max (1 / 2) ((100 - of_int (sensitivity s)) / 2)"
    using h motionStep_compare(2) [of inp s prevData] by (simp add: t)
qed


theorem motion_threshold_witness:
  "(threshold 85 = 15 / 2 \<and> threshold 99 = 1 / 2 \<and> threshold 1 = 99 / 2 \<and>
    threshold 93 = 7 / 2) \<and>
   (\<not> now partly_white_tick - lastFrameTime slider_93 < 100 \<and> motionCtx partly_white_tick \<and>
    prevFrame slider_93 = Some (replicate 1228800 0)) \<and>
   motionLevel (currentFrame partly_white_tick) (replicate 1228800 0) = 7 / 2 + 1 / 2 ^ 51 \<and>
   motionCandidate partly_white_tick slider_93 \<and>
   lastMotionDetected (motionStep partly_white_tick slider_93) \<and>
   (\<not> now faint_tick - lastFrameTime slider_93 < 100 \<and> motionCtx faint_tick \<and>
    prevFrame slider_93 = Some (replicate 1228800 0)) \<and>
   motionLevel (currentFrame faint_tick) (replicate 1228800 0) = 0 \<and>
   \<not> motionCandidate faint_tick slider_93 \<and>
   \<not> lastMotionDetected (motionStep faint_tick slider_93)"
proof -
  have t: "threshold 85 = 15 / 2 \<and> threshold 99 = 1 / 2 \<and> threshold 1 = 99 / 2 \<and>
    threshold 93 = 7 / 2"
    using motion_threshold [of 85, THEN conjunct1] motion_threshold [of 99, THEN conjunct1]
      motion_threshold [of 1, THEN conjunct1] motion_threshold [of 93, THEN conjunct1]
    by simp
  have h1: "\<not> now partly_white_tick - lastFrameTime slider_93 < 100 \<and>
    motionCtx partly_white_tick \<and> prevFrame slider_93 = Some (replicate 1228800 0)"
    by (simp add: partly_white_tick_def second_tick_def slider_93_eq)
  have h2: "\<not> now faint_tick - lastFrameTime slider_93 < 100 \<and> motionCtx faint_tick \<and>
    prevFrame slider_93 = Some (replicate 1228800 0)"
    by (simp add: faint_tick_def second_tick_def slider_93_eq)
  have l1: "motionLevel (currentFrame partly_white_tick) (replicate 1228800 0) = 7 / 2 + 1 / 2 ^ 51"
    by (simp add: partly_white_tick_def motionLevel_partly_white)
  have l2: "motionLevel (currentFrame faint_tick) (replicate 1228800 0) = 0"
    by (simp add: faint_tick_def motionLevel_same)
  have g1: "motionLevel (currentFrame partly_white_tick) (replicate 1228800 0) >
      max (1 / 2) ((100 - of_int (sensitivity slider_93)) / 2)"
    unfolding l1 by (simp add: slider_93_eq)
  have g2: "\<not> motionLevel (currentFrame faint_tick) (replicate 1228800 0) >
      max (1 / 2) ((100 - of_int (sensitivity slider_93)) / 2)"
    unfolding l2 by (simp add: slider_93_eq)
  have f: "\<not> lastMotionDetected slider_93" by (simp add: slider_93_eq)
  show ?thesis
    using t h1 h2 l1 l2 g1 g2 f
      motion_threshold [of 93 partly_white_tick slider_93 "replicate 1228800 0"]
      motion_threshold [of 93 faint_tick slider_93 "replicate 1228800 0"]
    by blast
qed

subsection \<open>The motion score of a tick\<close>

lemma resume_frame_fields [simp]:
  "prevFrame (analyzeFrame_resume P i d r s) = prevFrame s"
  "currentMotionLevel (analyzeFrame_resume P i d r s) = currentMotionLevel s"
  by (simp_all add: analyzeFrame_resume_def Let_def
      split: list.splits response.splits option.splits)

lemma motionStep_no_frame:
  assumes "prevFrame (motionStep inp s) = None"
  shows "prevFrame s = None \<and> currentMotionLevel (motionStep inp s) = currentMotionLevel s"
proof (cases "prevFrame s")
  case None
  then show ?thesis by (simp add: motionStep_first_frame)
next
  case (Some prevData)
  with assms show ?thesis
    by (simp add: motionStep_def Let_def split: if_splits)
qed

lemma detectMotion_None:
  assumes "prevFrame (detectMotion inp s) = None"
  shows "prevFrame s = None \<and> currentMotionLevel (detectMotion inp s) = currentMotionLevel s"
proof (cases "\<not> isMonitoring s \<or> \<not> videoReady inp \<or> \<not> canvasReady inp")
  case True
  with assms show ?thesis by (simp add: detectMotion_def)
next
  case False
  then have eq: "detectMotion inp s = motionStep inp (audioStep inp s)"
    by (simp add: detectMotion_def)
  from motionStep_no_frame [of inp "audioStep inp s"] assms eq show ?thesis by simp
qed

lemma step_no_frame:
  assumes "step s s'" and "prevFrame s' = None"
  shows "prevFrame s = None \<and> currentMotionLevel s' = currentMotionLevel s"
  using assms
proof cases
  case (step_tick inp)
  with assms(2) detectMotion_None [of inp s] show ?thesis by simp
qed (auto simp: startCamera_def stopCamera_def dismiss_def clearLogs_def
      split: start_outcome.splits)

lemma reachable_no_frame: "reachable s \<Longrightarrow> prevFrame s = None \<Longrightarrow> currentMotionLevel s = 0"
proof (induction rule: reachable.induct)
  case reachable_initial
  show ?case by (simp add: initial_def)
next
  case (reachable_step s s')
  from step_no_frame [OF reachable_step.hyps(2) reachable_step.prems]
  show ?case using reachable_step.IH by simp
qed

lemma detectMotion_no_frame:
  assumes "prevFrame s = None"
  shows "currentMotionLevel (detectMotion inp s) = currentMotionLevel s"
  using assms by (simp add: detectMotion_def motionStep_first_frame)

lemma motionStep_no_frame_quiet:
  assumes "prevFrame s = None"
  shows "\<not> motionCandidate inp s"
    and "currentMotionLevel (motionStep inp s) = currentMotionLevel s"
    and "lastMotionDetected (motionStep inp s) = lastMotionDetected s"
    and "events (motionStep inp s) = events s"
    and "pending (motionStep inp s) = pending s"
    and "isSuspicious (motionStep inp s) = isSuspicious s"
    and "lastDetectionTime (motionStep inp s) = lastDetectionTime s"
  using assms by (simp_all add: motionCandidate_def motionStep_first_frame)


lemma detectMotion_compare:
  assumes "isMonitoring s" "videoReady inp" "canvasReady inp"
    and "\<not> now inp - lastFrameTime s < 100" "motionCtx inp" "prevFrame s = Some prevData"
  shows "currentMotionLevel (detectMotion inp s) = motionLevel (currentFrame inp) prevData"
    and "prevFrame (detectMotion inp s) = Some (currentFrame inp)"
proof -
  have d: "detectMotion inp s = motionStep inp (audioStep inp s)"
    using assms(1-3) by (simp add: detectMotion_def)
  have g: "\<not> now inp - lastFrameTime (audioStep inp s) < 100"
    "prevFrame (audioStep inp s) = Some prevData"
    using assms(4,6) by simp_all
  show "currentMotionLevel (detectMotion inp s) = motionLevel (currentFrame inp) prevData"
    unfolding d using g(1) assms(5) g(2) by (rule motionStep_compare(1))
  show "prevFrame (detectMotion inp s) = Some (currentFrame inp)"
    using g assms(5) by (simp add: d motionStep_def Let_def)
qed

text \<open>
  Claim C3, as the code has it.  For two rasters of the canvas (640 by 480, so 1228800
  bytes each) the motion score is the number of sampled pixels (one every 16 bytes) whose
  absolute differences in R, G and B add up to more than 45, divided by the number of
  sampled pixels, times 100, each operation rounded to a double; it lies between 0 and
  100.  Two identical rasters give the score 0.  A tick that compares two rasters stores
  that score and keeps the new raster.  While no previous raster is stored, the motion part
  computes no score and raises no candidate: it leaves the score, the motion flag, the
  log, the alarm and the cooldown clock as they are, and in every reachable state without
  a previous raster the stored score is 0.  Stopping and starting a session keeps the
  previous raster, so only the first frame processed after the component is mounted has
  none.
\<close>

theorem motion_score_range:
  "(length data = 4 * canvas_width * canvas_height \<and> length prevData = length data \<longrightarrow>
      0 \<le> motionLevel data prevData \<and> motionLevel data prevData \<le> 100 \<and>
      motionLevel data prevData =
        fl (fl (of_nat (card {j. j < length data \<and> 16 dvd j \<and> pixelChanged data prevData j}) /
                of_nat (card {j. j < length data \<and> 16 dvd j})) * 100)) \<and>
   (i + 2 < length data \<and> length prevData = length data \<longrightarrow>
      (pixelChanged data prevData i \<longleftrightarrow>
         \<bar>uint (data ! i) - uint (prevData ! i)\<bar> +
         \<bar>uint (data ! (i + 1)) - uint (prevData ! (i + 1))\<bar> +
         \<bar>uint (data ! (i + 2)) - uint (prevData ! (i + 2))\<bar> > 45)) \<and>
   motionLevel data data = 0 \<and>
   (isMonitoring s \<and> videoReady inp \<and> canvasReady inp \<and> \<not> now inp - lastFrameTime s < 100 \<and>
    motionCtx inp \<and> prevFrame s = Some prevData \<longrightarrow>
      currentMotionLevel (detectMotion inp s) = motionLevel (currentFrame inp) prevData \<and>
      prevFrame (detectMotion inp s) = Some (currentFrame inp)) \<and>
   (prevFrame s = None \<longrightarrow>
      \<not> motionCandidate inp s \<and>
      currentMotionLevel (motionStep inp s) = currentMotionLevel s \<and>
      lastMotionDetected (motionStep inp s) = lastMotionDetected s \<and>
      events (motionStep inp s) = events s \<and>
      pending (motionStep inp s) = pending s \<and>
      isSuspicious (motionStep inp s) = isSuspicious s \<and>
      lastDetectionTime (motionStep inp s) = lastDetectionTime s) \<and>
   (reachable s \<and> prevFrame s = None \<longrightarrow>
      currentMotionLevel s = 0 \<and> currentMotionLevel (detectMotion inp s) = 0) \<and>
   prevFrame (stopCamera s) = prevFrame s \<and>
   prevFrame (startCamera outcome s) = prevFrame s \<and>
   prevFrame (rerender s s') = prevFrame s'"
proof (intro conjI impI)
  assume "length data = 4 * canvas_width * canvas_height \<and> length prevData = length data"
  then show "motionLevel data prevData \<le> 100" by (simp add: motionLevel_le_100)
next
  assume "length data = 4 * canvas_width * canvas_height \<and> length prevData = length data"
  then show "motionLevel data prevData =
        fl (fl (of_nat (card {j. j < length data \<and> 16 dvd j \<and> pixelChanged data prevData j}) /
                of_nat (card {j. j < length data \<and> 16 dvd j})) * 100)"
    by (simp only: motionLevel_fraction)
next
  assume "i + 2 < length data \<and> length prevData = length data"
  then show "pixelChanged data prevData i \<longleftrightarrow>
         \<bar>uint (data ! i) - uint (prevData ! i)\<bar> +
         \<bar>uint (data ! (i + 1)) - uint (prevData ! (i + 1))\<bar> +
         \<bar>uint (data ! (i + 2)) - uint (prevData ! (i + 2))\<bar> > 45"
    by (simp add: pixelChanged_in_range)
next
  show "0 \<le> motionLevel data prevData" by (rule motionLevel_nonneg)
  show "motionLevel data data = 0" by (rule motionLevel_same)
next
  assume h: "isMonitoring s \<and> videoReady inp \<and> canvasReady inp \<and>
    \<not> now inp - lastFrameTime s < 100 \<and> motionCtx inp \<and> prevFrame s = Some prevData"
  then show "currentMotionLevel (detectMotion inp s) = motionLevel (currentFrame inp) prevData"
    by (intro detectMotion_compare(1)) simp_all
  from h show "prevFrame (detectMotion inp s) = Some (currentFrame inp)"
    by (intro detectMotion_compare(2) [where prevData = prevData]) simp_all
next
  assume r: "reachable s \<and> prevFrame s = None"
  then show z: "currentMotionLevel s = 0" by (simp add: reachable_no_frame)
  from r show "currentMotionLevel (detectMotion inp s) = 0"
    by (simp add: detectMotion_no_frame z)
next
  show "prevFrame (stopCamera s) = prevFrame s" by (simp add: stopCamera_def)
  show "prevFrame (startCamera outcome s) = prevFrame s"
    by (simp add: startCamera_def split: start_outcome.splits)
  show "prevFrame (rerender s s') = prevFrame s'" by simp
qed (simp_all add: motionStep_no_frame_quiet)

theorem motion_score_range_witness:
  "(length (replicate 1228800 (255 :: 8 word)) = 4 * canvas_width * canvas_height \<and>
    length (replicate 1228800 (0 :: 8 word)) = length (replicate 1228800 (255 :: 8 word))) \<and>
   0 \<le> motionLevel (replicate 1228800 255) (replicate 1228800 0) \<and>
   motionLevel (replicate 1228800 255) (replicate 1228800 0) \<le> 100 \<and>
   motionLevel (replicate 1228800 255) (replicate 1228800 255) = 0 \<and>
   (reachable session_start \<and> prevFrame session_start = None) \<and>
   \<not> motionCandidate first_tick session_start \<and>
   events (motionStep first_tick session_start) = events session_start \<and>
   currentMotionLevel (detectMotion first_tick session_start) = 0 \<and>
   (isMonitoring after_first_tick \<and> videoReady second_tick \<and> canvasReady second_tick \<and>
    \<not> now second_tick - lastFrameTime after_first_tick < 100 \<and> motionCtx second_tick \<and>
    prevFrame after_first_tick = Some (replicate 1228800 0)) \<and>
   currentMotionLevel (detectMotion second_tick after_first_tick) =
     motionLevel (currentFrame second_tick) (replicate 1228800 0)"
proof -
  have h1: "length (replicate 1228800 (255 :: 8 word)) = 4 * canvas_width * canvas_height \<and>
    length (replicate 1228800 (0 :: 8 word)) = length (replicate 1228800 (255 :: 8 word))"
    by (simp add: canvas_width_def canvas_height_def)
  have h3: "prevFrame session_start = None" by (simp add: session_start_eq)
  with reachable_session_start
  have h2: "reachable session_start \<and> prevFrame session_start = None" ..
  have h4: "isMonitoring after_first_tick \<and> videoReady second_tick \<and> canvasReady second_tick \<and>
    \<not> now second_tick - lastFrameTime after_first_tick < 100 \<and> motionCtx second_tick \<and>
    prevFrame after_first_tick = Some (replicate 1228800 0)"
    by (simp add: after_first_tick_eq second_tick_def)
  show ?thesis
    using h1 h2 h3 h4
      motion_score_range [of "replicate 1228800 255" "replicate 1228800 0" 0 session_start
        first_tick]
      motion_score_range [of "replicate 1228800 255" "replicate 1228800 0" 0 after_first_tick
        second_tick]
    by blast
qed

text \<open>
  The claim as stated fails on the first tick of a second session: the raster of the
  first session is still stored, the white frame is compared with it, the score is 100
  and a motion candidate fires and is accepted.
\<close>

theorem first_tick_of_second_session_counterexample:
  "reachable second_session \<and> isMonitoring second_session \<and>
   prevFrame second_session = Some (replicate 1228800 0) \<and>
   motionCandidate second_tick second_session \<and>
   currentMotionLevel (detectMotion second_tick second_session) = 100 \<and>
   lastMotionDetected (detectMotion second_tick second_session) \<and>
   lastDetectionTime (detectMotion second_tick second_session) = 7000"
  using reachable_second_session
  by (simp add: second_session_eq motionCandidate_def run_defs)

subsection \<open>The bounded event log\<close>

lemma length_pushEvent: "length (pushEvent e evs) \<le> 50"
  by (simp add: pushEvent_def)

lemma pushEvent_room: "length evs < 50 \<Longrightarrow> pushEvent e evs = e # evs"
  by (simp add: pushEvent_def)

lemma pushEvent_full: "length evs = 50 \<Longrightarrow> pushEvent e evs = e # butlast evs"
  by (simp add: pushEvent_def butlast_conv_take)

lemma take_append_take: "take n (xs @ take n ys) = take n (xs @ ys)"
  by (simp add: min_def)

lemma fold_pushEvent: "length evs \<le> 50 \<Longrightarrow> fold pushEvent es evs = take 50 (rev es @ evs)"
proof (induction es arbitrary: evs)
  case Nil
  then show ?case by simp
next
  case (Cons e es)
  have "fold pushEvent (e # es) evs = fold pushEvent es (pushEvent e evs)" by simp
  also have "\<dots> = take 50 (rev es @ pushEvent e evs)"
    by (rule Cons.IH) (rule length_pushEvent)
  also have "\<dots> = take 50 (rev es @ e # evs)"
    by (simp only: pushEvent_def take_append_take)
  finally show ?case by simp
qed

lemma fold_pushEvent_51:
  assumes "length es = 51"
  shows "fold pushEvent es [] = rev (tl es)"
proof -
  from assms obtain e0 rest where es: "es = e0 # rest" and len: "length rest = 50"
    by (cases es) auto
  have "fold pushEvent es [] = take 50 (rev es @ [])" by (rule fold_pushEvent) simp
  also have "\<dots> = rev rest" using es len by simp
  finally show ?thesis using es by simp
qed

lemma events_resume:
  "events (analyzeFrame_resume P i d r s) = events s \<or>
   (\<exists>e. events (analyzeFrame_resume P i d r s) = pushEvent e (events s))"
  by (auto simp: analyzeFrame_resume_def Let_def
      split: list.splits response.splits option.splits)

lemma events_audioStep:
  "events (audioStep inp s) = events s \<or>
   events (audioStep inp s) = pushEvent (soundEvent inp) (events s) \<and>
   lastDetectionTime (audioStep inp s) = now inp"
proof (cases "audioCandidate inp s \<and> cooldownOver inp s")
  case True
  then show ?thesis by (simp add: audioStep_accepted)
next
  case False
  then show ?thesis by (simp add: audioStep_rejected_fields)
qed

lemma events_motionStep:
  "events (motionStep inp s) = events s \<or>
   events (motionStep inp s) = pushEvent (motionEvent inp) (events s) \<and> cooldownOver inp s"
proof (cases "motionCandidate inp s \<and> cooldownOver inp s")
  case True
  then obtain prevData where "prevFrame s = Some prevData"
    by (auto simp: motionCandidate_def split: option.splits)
  with True show ?thesis by (simp add: motionStep_accepted)
next
  case False
  then show ?thesis by (simp add: motionStep_rejected)
qed

lemma events_detectMotion:
  "events (detectMotion inp s) = events s \<or>
   events (detectMotion inp s) = pushEvent (soundEvent inp) (events s) \<or>
   events (detectMotion inp s) = pushEvent (motionEvent inp) (events s)"
proof (cases "\<not> isMonitoring s \<or> \<not> videoReady inp \<or> \<not> canvasReady inp")
  case True
  then show ?thesis by (simp add: detectMotion_def)
next
  case False
  then have eq: "detectMotion inp s = motionStep inp (audioStep inp s)"
    by (simp add: detectMotion_def)
  from events_audioStep [of inp s] show ?thesis
  proof
    assume "events (audioStep inp s) = events s"
    with events_motionStep [of inp "audioStep inp s"] eq show ?thesis by auto
  next
    assume a: "events (audioStep inp s) = pushEvent (soundEvent inp) (events s) \<and>
      lastDetectionTime (audioStep inp s) = now inp"
    then have "\<not> cooldownOver inp (audioStep inp s)" by (simp add: not_cooldownOver_at_now)
    with events_motionStep [of inp "audioStep inp s"] a eq show ?thesis by auto
  qed
qed

lemma step_events:
  assumes "step s s'"
  shows "events s' = events s \<or> events s' = [] \<or> (\<exists>e. events s' = pushEvent e (events s))"
  using assms
proof cases
  case (step_tick inp)
  with events_detectMotion [of inp s] show ?thesis by auto
next
  case (step_resume P i d r)
  with events_resume [of P i d r s] show ?thesis by auto
qed (auto simp: startCamera_def stopCamera_def dismiss_def clearLogs_def
      split: start_outcome.splits)

lemma reachable_events: "reachable s \<Longrightarrow> length (events s) \<le> 50"
proof (induction rule: reachable.induct)
  case reachable_initial
  show ?case by (simp add: initial_def)
next
  case (reachable_step s s')
  from step_events [OF reachable_step.hyps(2)] reachable_step.IH show ?case
    by (auto simp: length_pushEvent)
qed

lemma resume_confirmed:
  assumes "pending s = base64Image # rest"
    and "JSON_parse (extractJson (responseText t)) = Some result"
    and "res_isSuspicious result"
  shows "analyzeFrame_resume JSON_parse ident date (ResponseText t) s =
     s\<lparr>pending := rest, isSuspicious := True,
       events := pushEvent
         \<lparr>ev_id = ident, ev_timestamp = date, ev_image = base64Image, ev_isSuspicious = True,
          ev_reason = (if res_reason result = [] then ''Person detected'' else res_reason result)\<rparr>
         (events s),
       isAnalyzing := False\<rparr>"
  using assms by (simp add: analyzeFrame_resume_def Let_def)


text \<open>
  Claim C5.  In every reachable state the log holds at most 50 events.  A step keeps the
  log, empties it (Clear Logs), or replaces it by \<open>pushEvent e\<close> of the old log; a tick
  inserts the sound event or the motion event, a confirmed verification inserts its event.
  \<open>pushEvent\<close> puts the new event in front and, when the log already holds 50, drops
  the last, which is the oldest.  Inserting 51 events into the empty log leaves the last
  50 of them, newest first, without the first one.
\<close>

theorem event_log_bounded:
  "(reachable s \<longrightarrow> length (events s) \<le> 50) \<and>
   (step s s' \<longrightarrow>
      events s' = events s \<or> events s' = [] \<or> (\<exists>e. events s' = pushEvent e (events s))) \<and>
   (events (detectMotion inp s) = events s \<or>
    events (detectMotion inp s) = pushEvent (soundEvent inp) (events s) \<or>
    events (detectMotion inp s) = pushEvent (motionEvent inp) (events s)) \<and>
   (pending s = base64Image # rest \<and>
    JSON_parse (extractJson (responseText t)) = Some result \<and> res_isSuspicious result \<longrightarrow>
      events (analyzeFrame_resume JSON_parse ident date (ResponseText t) s) =
        pushEvent
          \<lparr>ev_id = ident, ev_timestamp = date, ev_image = base64Image, ev_isSuspicious = True,
           ev_reason = (if res_reason result = [] then ''Person detected''
                        else res_reason result)\<rparr>
          (events s)) \<and>
   length (pushEvent e evs) \<le> 50 \<and>
   (length evs < 50 \<longrightarrow> pushEvent e evs = e # evs) \<and>
   (length evs = 50 \<longrightarrow> pushEvent e evs = e # butlast evs) \<and>
   (length es = 51 \<longrightarrow>
      fold pushEvent es [] = rev (tl es) \<and> length (fold pushEvent es []) = 50 \<and>
      (distinct es \<longrightarrow> hd es \<notin> set (fold pushEvent es [])))"
proof (intro conjI impI)
  assume "reachable s"
  then show "length (events s) \<le> 50" by (rule reachable_events)
next
  assume "step s s'"
  then show "events s' = events s \<or> events s' = [] \<or> (\<exists>e. events s' = pushEvent e (events s))"
    by (rule step_events)
next
  show "events (detectMotion inp s) = events s \<or>
    events (detectMotion inp s) = pushEvent (soundEvent inp) (events s) \<or>
    events (detectMotion inp s) = pushEvent (motionEvent inp) (events s)"
    by (rule events_detectMotion)
next
  assume "pending s = base64Image # rest \<and>
    JSON_parse (extractJson (responseText t)) = Some result \<and> res_isSuspicious result"
  then have "analyzeFrame_resume JSON_parse ident date (ResponseText t) s =
     s\<lparr>pending := rest, isSuspicious := True,
       events := pushEvent
         \<lparr>ev_id = ident, ev_timestamp = date, ev_image = base64Image, ev_isSuspicious = True,
          ev_reason = (if res_reason result = [] then ''Person detected'' else res_reason result)\<rparr>
         (events s),
       isAnalyzing := False\<rparr>"
    by (simp add: resume_confirmed)
  then show "events (analyzeFrame_resume JSON_parse ident date (ResponseText t) s) =
        pushEvent
          \<lparr>ev_id = ident, ev_timestamp = date, ev_image = base64Image, ev_isSuspicious = True,
           ev_reason = (if res_reason result = [] then ''Person detected''
                        else res_reason result)\<rparr>
          (events s)"
    by simp
next
  show "length (pushEvent e evs) \<le> 50" by (rule length_pushEvent)
next
  assume "length evs < 50"
  then show "pushEvent e evs = e # evs" by (rule pushEvent_room)
next
  assume "length evs = 50"
  then show "pushEvent e evs = e # butlast evs" by (rule pushEvent_full)
next
  assume len: "length es = 51"
  then show eq: "fold pushEvent es [] = rev (tl es)" by (rule fold_pushEvent_51)
  from len show "length (fold pushEvent es []) = 50" by (simp add: eq)
  assume "distinct es"
  with len have "hd es \<notin> set (rev (tl es))" by (cases es) simp_all
  then show "hd es \<notin> set (fold pushEvent es [])" by (simp add: eq)
qed

theorem event_log_bounded_witness:
  "reachable after_first_tick \<and> length (events after_first_tick) \<le> 50 \<and>
   step after_first_tick after_second_tick \<and>
   length sample_events = 51 \<and> distinct sample_events \<and>
   fold pushEvent sample_events [] = rev (tl sample_events) \<and>
   length (fold pushEvent sample_events []) = 50 \<and>
   hd sample_events \<notin> set (fold pushEvent sample_events [])"
proof -
  have len: "length sample_events = 51" by (simp add: sample_events_def)
  have dist: "distinct sample_events"
    by (simp add: sample_events_def distinct_map inj_on_def)
  show ?thesis
    using event_log_bounded [of after_first_tick after_second_tick
        second_tick "''x''" "[]" "\<lambda>x. None" None "\<lparr>res_isSuspicious = False, res_reason = []\<rparr>"
        "''i''" 0 "hd sample_events" "[]" sample_events]
      reachable_after_first_tick
      step_tick [of after_first_tick second_tick, folded after_second_tick_def] len dist
    by blast
qed

subsection \<open>One verification at a time\<close>

lemma analyzeFrame_dropped: "isAnalyzing s \<Longrightarrow> analyzeFrame img s = s"
  by (simp add: analyzeFrame_def)

lemma analyzeFrame_started:
  "\<not> isAnalyzing s \<Longrightarrow>
   analyzeFrame img s = s\<lparr>isAnalyzing := True, pending := pending s @ [img]\<rparr>"
  by (simp add: analyzeFrame_def)

lemma single_flight_analyzeFrame: "single_flight s \<Longrightarrow> single_flight (analyzeFrame img s)"
  by (auto simp: single_flight_def analyzeFrame_def)

lemma single_flight_audioStep: "single_flight s \<Longrightarrow> single_flight (audioStep inp s)"
proof -
  assume sf: "single_flight s"
  have upd: "\<And>a b. single_flight (s\<lparr>audioLevel := a, lastDetectionTime := b\<rparr>)"
    using sf by (simp add: single_flight_def)
  show ?thesis
  proof (cases "audioCandidate inp s \<and> cooldownOver inp s")
    case True
    then show ?thesis
      using sf upd by (auto simp: audioStep_accepted single_flight_analyzeFrame)
         (simp_all add: single_flight_def)
  next
    case False
    then show ?thesis using sf by (simp add: audioStep_rejected single_flight_def)
  qed
qed

lemma single_flight_motionStep: "single_flight s \<Longrightarrow> single_flight (motionStep inp s)"
proof -
  assume sf: "single_flight s"
  show ?thesis
  proof (cases "motionCandidate inp s \<and> cooldownOver inp s")
    case True
    then obtain prevData where p: "prevFrame s = Some prevData"
      by (auto simp: motionCandidate_def split: option.splits)
    have "single_flight (s\<lparr>lastFrameTime := now inp,
                currentMotionLevel := motionLevel (currentFrame inp) prevData,
                lastMotionDetected := True, lastDetectionTime := now inp\<rparr>)"
      using sf by (simp add: single_flight_def)
    then have "single_flight (analyzeFrame (motionSnapshot inp)
             (s\<lparr>lastFrameTime := now inp,
                currentMotionLevel := motionLevel (currentFrame inp) prevData,
                lastMotionDetected := True, lastDetectionTime := now inp\<rparr>))"
      by (rule single_flight_analyzeFrame)
    then show ?thesis
      using True p sf by (simp add: motionStep_accepted) (simp add: single_flight_def)
  next
    case False
    from motionStep_rejected [OF this] sf show ?thesis by (simp add: single_flight_def)
  qed
qed

lemma resume_clears:
  "pending s \<noteq> [] \<Longrightarrow> \<not> isAnalyzing (analyzeFrame_resume P i d r s)"
  by (simp add: analyzeFrame_resume_def Let_def split: list.splits)

lemma resume_pending:
  "pending (analyzeFrame_resume P i d r s) = tl (pending s)"
  by (simp add: analyzeFrame_resume_def Let_def
      split: list.splits response.splits option.splits)

lemma single_flight_resume:
  assumes "single_flight s"
  shows "single_flight (analyzeFrame_resume P i d r s)"
proof (cases "pending s")
  case Nil
  with assms show ?thesis by (simp add: analyzeFrame_resume_def)
next
  case (Cons img rest)
  with assms have "rest = []" by (simp add: single_flight_def)
  with Cons resume_clears [of s P i d r] resume_pending [of P i d r s] show ?thesis
    by (simp add: single_flight_def)
qed

lemma single_flight_rerender [simp]: "single_flight (rerender s s') = single_flight s'"
  by (simp add: single_flight_def)

lemma step_single_flight:
  assumes "step s s'" and "single_flight s"
  shows "single_flight s'"
  using assms
proof cases
  case (step_tick inp)
  with assms(2) show ?thesis
    by (simp add: detectMotion_def single_flight_motionStep single_flight_audioStep)
next
  case (step_resume P i d r)
  with assms(2) show ?thesis by (simp add: single_flight_resume)
qed (auto simp: single_flight_def startCamera_def stopCamera_def dismiss_def clearLogs_def
      split: start_outcome.splits)

lemma reachable_single_flight: "reachable s \<Longrightarrow> single_flight s"
proof (induction rule: reachable.induct)
  case reachable_initial
  show ?case by (simp add: single_flight_def initial_def)
next
  case (reachable_step s s')
  then show ?case by (simp add: step_single_flight)
qed

text \<open>
  Claim C7.  A call of \<open>analyzeFrame\<close> made while \<open>isAnalyzing\<close> is set changes nothing:
  no request is sent and none is queued.  A call made while it is clear sets the flag and
  sends one request.  In every reachable state at most one verification is in flight, and
  the flag is set exactly while one is.  When a verification completes, whatever the
  response and whatever the parser returns, the flag is clear afterwards and no
  verification is left in flight.
\<close>

theorem verification_single_flight:
  "(isAnalyzing s \<longrightarrow> analyzeFrame img s = s) \<and>
   (\<not> isAnalyzing s \<longrightarrow>
      analyzeFrame img s = s\<lparr>isAnalyzing := True, pending := pending s @ [img]\<rparr>) \<and>
   (reachable s \<longrightarrow> length (pending s) \<le> 1 \<and> (isAnalyzing s \<longleftrightarrow> pending s \<noteq> [])) \<and>
   (pending s \<noteq> [] \<longrightarrow> \<not> isAnalyzing (analyzeFrame_resume JSON_parse ident date resp s)) \<and>
   (reachable s \<longrightarrow>
      \<not> isAnalyzing (analyzeFrame_resume JSON_parse ident date resp s) \<and>
      pending (analyzeFrame_resume JSON_parse ident date resp s) = [])"
proof (intro conjI impI)
  assume "isAnalyzing s"
  then show "analyzeFrame img s = s" by (rule analyzeFrame_dropped)
next
  assume "\<not> isAnalyzing s"
  then show "analyzeFrame img s = s\<lparr>isAnalyzing := True, pending := pending s @ [img]\<rparr>"
    by (rule analyzeFrame_started)
next
  assume "reachable s"
  then have "single_flight s" by (rule reachable_single_flight)
  then show "length (pending s) \<le> 1" and "isAnalyzing s \<longleftrightarrow> pending s \<noteq> []"
    by (simp_all add: single_flight_def)
next
  assume "pending s \<noteq> []"
  then show "\<not> isAnalyzing (analyzeFrame_resume JSON_parse ident date resp s)"
    by (rule resume_clears)
next
  assume "reachable s"
  then have "single_flight s" by (rule reachable_single_flight)
  then have "single_flight (analyzeFrame_resume JSON_parse ident date resp s)"
    by (rule single_flight_resume)
  moreover have "length (pending (analyzeFrame_resume JSON_parse ident date resp s)) = 0"
    using \<open>single_flight s\<close> by (simp add: resume_pending single_flight_def)
  ultimately show "\<not> isAnalyzing (analyzeFrame_resume JSON_parse ident date resp s)"
    and "pending (analyzeFrame_resume JSON_parse ident date resp s) = []"
    by (simp_all add: single_flight_def)
qed

theorem verification_single_flight_witness:
  "isAnalyzing after_first_tick \<and> reachable after_first_tick \<and>
   pending after_first_tick = [''data:image/jpeg;base64,AAAA''] \<and>
   analyzeFrame ''data:image/jpeg;base64,EEEE'' after_first_tick = after_first_tick \<and>
   \<not> isAnalyzing (analyzeFrame_resume (\<lambda>x. None) ''k3j9x0q1z'' 5600 RequestFailed after_first_tick) \<and>
   pending (analyzeFrame_resume (\<lambda>x. None) ''k3j9x0q1z'' 5600 RequestFailed after_first_tick) = [] \<and>
   \<not> isAnalyzing initial \<and>
   pending (analyzeFrame ''data:image/jpeg;base64,EEEE'' initial) =
     [''data:image/jpeg;base64,EEEE'']"
proof -
  have a: "isAnalyzing after_first_tick"
    "pending after_first_tick = [''data:image/jpeg;base64,AAAA'']"
    by (simp_all add: after_first_tick_eq)
  have b: "\<not> isAnalyzing initial" "pending initial = []" by (simp_all add: initial_def)
  have c: "pending (analyzeFrame ''data:image/jpeg;base64,EEEE'' initial) =
     [''data:image/jpeg;base64,EEEE'']"
    using verification_single_flight [of initial "''data:image/jpeg;base64,EEEE''"] b
    by simp
  show ?thesis
    using verification_single_flight [of after_first_tick "''data:image/jpeg;base64,EEEE''"
        "\<lambda>x. None" "''k3j9x0q1z''" 5600 RequestFailed]
      reachable_after_first_tick a b c
    by simp
qed

subsection \<open>The verifier adapter\<close>

lemma indexOf_absent: "c \<notin> set str \<Longrightarrow> indexOf str c = -1"
  by (induction str) (auto simp: Let_def)

lemma indexOf_nonneg: "c \<in> set str \<Longrightarrow> 0 \<le> indexOf str c"
  by (induction str) (auto simp: Let_def)









subsection \<open>Stopping a session\<close>

text \<open>
  Claim C8, as the code has it.  \<open>stopCamera\<close> clears the stream, the monitoring flag and
  the alarm flag, and nothing else: the log, the previous raster, the motion and audio
  scores, the cooldown clock, the frame clock and the in-flight flag keep their values,
  also across the next \<open>startCamera\<close>, however it ends.  Clearing the log afterwards
  empties it.
\<close>

theorem stop_keeps_run_state:
  "stopCamera s = s\<lparr>stream := False, isMonitoring := False, isSuspicious := False\<rparr> \<and>
   \<not> stream (stopCamera s) \<and> \<not> isMonitoring (stopCamera s) \<and> \<not> isSuspicious (stopCamera s) \<and>
   events (stopCamera s) = events s \<and>
   prevFrame (stopCamera s) = prevFrame s \<and>
   currentMotionLevel (stopCamera s) = currentMotionLevel s \<and>
   audioLevel (stopCamera s) = audioLevel s \<and>
   lastDetectionTime (stopCamera s) = lastDetectionTime s \<and>
   lastFrameTime (stopCamera s) = lastFrameTime s \<and>
   isAnalyzing (stopCamera s) = isAnalyzing s \<and>
   pending (stopCamera s) = pending s \<and>
   prevFrame (startCamera outcome (stopCamera s)) = prevFrame s \<and>
   lastDetectionTime (startCamera outcome (stopCamera s)) = lastDetectionTime s \<and>
   currentMotionLevel (startCamera outcome (stopCamera s)) = currentMotionLevel s \<and>
   audioLevel (startCamera outcome (stopCamera s)) = audioLevel s \<and>
   isAnalyzing (startCamera outcome (stopCamera s)) = isAnalyzing s \<and>
   pending (startCamera outcome (stopCamera s)) = pending s \<and>
   events (startCamera outcome (stopCamera s)) = events s \<and>
   events (clearLogs (stopCamera s)) = []"
  by (simp add: stopCamera_def startCamera_def clearLogs_def split: start_outcome.splits)

text \<open>
  The claim as stated fails: after two ticks of a session the stop leaves the white
  raster, the score 100 and the clock 7000 in place; after one tick it leaves the audio
  score.
\<close>

theorem stop_resets_run_state_counterexample:
  "reachable after_second_tick \<and>
   prevFrame (stopCamera after_second_tick) = Some (replicate 1228800 255) \<and>
   currentMotionLevel (stopCamera after_second_tick) = 100 \<and>
   lastDetectionTime (stopCamera after_second_tick) = 7000 \<and>
   audioLevel (stopCamera after_first_tick) = Num (4000 / 51) \<and>
   \<not> (prevFrame (stopCamera after_second_tick) = None \<and>
      currentMotionLevel (stopCamera after_second_tick) = 0 \<and>
      audioLevel (stopCamera after_second_tick) = Num 0 \<and>
      lastDetectionTime (stopCamera after_second_tick) = 0)"
  using reachable_after_second_tick
  by (simp add: stopCamera_def after_second_tick_eq after_first_tick_eq)

subsection \<open>The cooldown\<close>

text \<open>
  The gate in terms of what \<open>detectMotion\<close> sees: the window is 1000 when the captured
  copy of \<open>isSmartGuard\<close> is set and 300 otherwise.
\<close>

lemma cooldown_gate_closure:
  "(lastDetectionTime (detectMotion inp s) \<noteq> lastDetectionTime s \<or>
    events (detectMotion inp s) \<noteq> events s \<or>
    pending (detectMotion inp s) \<noteq> pending s \<longrightarrow>
      now inp - lastDetectionTime s > (if closure_isSmartGuard s then 1000 else 300)) \<and>
   (audioCandidate inp s \<and> now inp - lastDetectionTime s > (if closure_isSmartGuard s then 1000 else 300) \<longrightarrow>
      lastDetectionTime (audioStep inp s) = now inp) \<and>
   (motionCandidate inp s \<and> now inp - lastDetectionTime s > (if closure_isSmartGuard s then 1000 else 300) \<longrightarrow>
      lastDetectionTime (motionStep inp s) = now inp) \<and>
   (now inp = lastDetectionTime s + (if closure_isSmartGuard s then 1000 else 300) - 1 \<longrightarrow>
      lastDetectionTime (detectMotion inp s) = lastDetectionTime s \<and>
      events (detectMotion inp s) = events s \<and>
      pending (detectMotion inp s) = pending s \<and>
      isSuspicious (detectMotion inp s) = isSuspicious s) \<and>
   (now inp = lastDetectionTime s + (if closure_isSmartGuard s then 1000 else 300) + 1 \<and>
    isMonitoring s \<and> videoReady inp \<and> canvasReady inp \<and>
    (audioCandidate inp s \<or> motionCandidate inp s) \<longrightarrow>
      lastDetectionTime (detectMotion inp s) = now inp)"
proof (intro conjI impI)
  assume "lastDetectionTime (detectMotion inp s) \<noteq> lastDetectionTime s \<or>
    events (detectMotion inp s) \<noteq> events s \<or> pending (detectMotion inp s) \<noteq> pending s"
  then have "cooldownOver inp s"
    using detectMotion_within_cooldown [of inp s] by blast
  then show "now inp - lastDetectionTime s > (if closure_isSmartGuard s then 1000 else 300)"
    by (simp add: gate_defs)
next
  assume "audioCandidate inp s \<and> now inp - lastDetectionTime s > (if closure_isSmartGuard s then 1000 else 300)"
  then show "lastDetectionTime (audioStep inp s) = now inp"
    by (simp add: audioStep_accepted_time gate_defs)
next
  assume "motionCandidate inp s \<and> now inp - lastDetectionTime s > (if closure_isSmartGuard s then 1000 else 300)"
  then show "lastDetectionTime (motionStep inp s) = now inp"
    by (simp add: motionStep_accepted_time gate_defs)
next
  assume "now inp = lastDetectionTime s + (if closure_isSmartGuard s then 1000 else 300) - 1"
  then have early: "\<not> cooldownOver inp s" by (simp add: gate_defs)
  note inside = detectMotion_within_cooldown [OF early]
  show "lastDetectionTime (detectMotion inp s) = lastDetectionTime s" using inside by simp
  show "events (detectMotion inp s) = events s" using inside by simp
  show "pending (detectMotion inp s) = pending s" using inside by simp
  show "isSuspicious (detectMotion inp s) = isSuspicious s" using inside by simp
next
  assume late: "now inp = lastDetectionTime s + (if closure_isSmartGuard s then 1000 else 300) + 1 \<and>
    isMonitoring s \<and> videoReady inp \<and> canvasReady inp \<and>
    (audioCandidate inp s \<or> motionCandidate inp s)"
  then have "cooldownOver inp s" by (simp add: gate_defs)
  with late show "lastDetectionTime (detectMotion inp s) = now inp"
    by (simp add: detectMotion_accepted_time)
qed


text \<open>
  Claim C1 fails on the code after Smart Guard is switched off during a session.  The
  detection of the first tick set the clock to 5000 and Smart Guard is now off, so the
  window of the claim is 300 and a candidate at 5301 is to be accepted.  The installed
  \<open>detectMotion\<close> still holds Smart Guard on and the window 1000: the tick at 5301 has an
  audio candidate and accepts nothing, leaving the clock at 5000, the log, the alarm and
  the verification in flight as they were.  Once the effect has run again the same tick
  sets the clock to 5301.
\<close>

theorem cooldown_window_after_toggle:
  "reachable guard_toggled_off \<and> \<not> isSmartGuard guard_toggled_off \<and>
   isMonitoring guard_toggled_off \<and> lastDetectionTime guard_toggled_off = 5000 \<and>
   now loud_tick = 5000 + 300 + 1 \<and> videoReady loud_tick \<and> canvasReady loud_tick \<and>
   audioCandidate loud_tick guard_toggled_off \<and>
   lastDetectionTime (detectMotion loud_tick guard_toggled_off) = 5000 \<and>
   events (detectMotion loud_tick guard_toggled_off) = events guard_toggled_off \<and>
   pending (detectMotion loud_tick guard_toggled_off) = pending guard_toggled_off \<and>
   isSuspicious (detectMotion loud_tick guard_toggled_off) = isSuspicious guard_toggled_off \<and>
   lastDetectionTime (detectMotion loud_tick (install guard_toggled_off)) = 5301"
  using reachable_guard_toggled_off
  by (simp add: guard_toggled_off_eq loud_tick_def audioCandidate_def run_defs pushEvent_def)

text \<open>In the words of the claim: the candidate one millisecond past the window is rejected.\<close>

theorem cooldown_window_after_toggle_witness:
  "\<not> isSmartGuard guard_toggled_off \<and>
   now loud_tick = lastDetectionTime guard_toggled_off + 300 + 1 \<and>
   audioCandidate loud_tick guard_toggled_off \<and>
   lastDetectionTime (detectMotion loud_tick guard_toggled_off) \<noteq> now loud_tick"
  using cooldown_window_after_toggle by simp

subsection \<open>The audio score and its threshold\<close>

lemma audioCandidate_iff:
  "audioCandidate inp s \<longleftrightarrow>
     analyser s \<and> dataArray inp \<noteq> [] \<and>
     of_nat (Max (unat ` set (dataArray inp))) / 255 * 100 > (of_int (100 - closure_audioSensitivity s) :: rat)"
proof (cases "dataArray inp = []")
  case True
  then show ?thesis by (simp add: audioCandidate_def normalizedLevel_empty)
next
  case False
  then show ?thesis by (simp add: audioCandidate_def normalizedLevel_nonempty)
qed

lemma audioStep_level: "analyser s \<Longrightarrow> audioLevel (audioStep inp s) = normalizedLevel (dataArray inp)"
  by (simp add: audioStep_def Let_def analyzeFrame_def)

lemma audioStep_time_iff:
  assumes "cooldownOver inp s"
  shows "lastDetectionTime (audioStep inp s) = now inp \<longleftrightarrow> audioCandidate inp s"
proof (cases "audioCandidate inp s")
  case True
  with assms show ?thesis by (simp add: audioStep_accepted_time)
next
  case False
  then have "\<not> (audioCandidate inp s \<and> cooldownOver inp s)" by simp
  then have "lastDetectionTime (audioStep inp s) = lastDetectionTime s"
    by (rule audioStep_rejected_fields(5))
  moreover have "lastDetectionTime s \<noteq> now inp"
    using assms by (auto simp: cooldownOver_def cooldownWindow_def split: if_splits)
  ultimately show ?thesis using False by simp
qed


text \<open>
  The audio score and the test in terms of what \<open>detectMotion\<close> sees: the threshold is
  100 minus the captured copy of \<open>audioSensitivity\<close>.
\<close>

lemma audio_peak_score_closure:
  "(arr \<noteq> [] \<longrightarrow>
      normalizedLevel arr = Num (of_nat (Max (unat ` set arr)) / 255 * 100) \<and>
      (0 :: rat) \<le> of_nat (Max (unat ` set arr)) / 255 * 100 \<and>
      of_nat (Max (unat ` set arr)) / 255 * 100 \<le> (100 :: rat)) \<and>
   (analyser s \<longrightarrow> audioLevel (audioStep inp s) = normalizedLevel (dataArray inp)) \<and>
   (analyser s \<and> dataArray inp \<noteq> [] \<longrightarrow>
      (audioCandidate inp s \<longleftrightarrow>
         of_nat (Max (unat ` set (dataArray inp))) / 255 * 100 >
           (of_int (100 - closure_audioSensitivity s) :: rat))) \<and>
   (analyser s \<and> dataArray inp \<noteq> [] \<and>
    now inp - lastDetectionTime s > (if closure_isSmartGuard s then 1000 else 300) \<longrightarrow>
      (lastDetectionTime (audioStep inp s) = now inp \<longleftrightarrow>
         of_nat (Max (unat ` set (dataArray inp))) / 255 * 100 >
           (of_int (100 - closure_audioSensitivity s) :: rat)))"
proof (intro conjI impI)
  assume ne: "arr \<noteq> []"
  then show "normalizedLevel arr = Num (of_nat (Max (unat ` set arr)) / 255 * 100)"
    by (rule normalizedLevel_nonempty)
  show "(0 :: rat) \<le> of_nat (Max (unat ` set arr)) / 255 * 100" by simp
  have "(of_nat (Max (unat ` set arr)) :: rat) \<le> of_nat 255"
    using peak_le_255 [OF ne] by (simp only: of_nat_le_iff)
  then show "of_nat (Max (unat ` set arr)) / 255 * 100 \<le> (100 :: rat)" by simp
next
  assume "analyser s"
  then show "audioLevel (audioStep inp s) = normalizedLevel (dataArray inp)"
    by (rule audioStep_level)
next
  assume "analyser s \<and> dataArray inp \<noteq> []"
  then show "audioCandidate inp s \<longleftrightarrow>
         of_nat (Max (unat ` set (dataArray inp))) / 255 * 100 >
           (of_int (100 - closure_audioSensitivity s) :: rat)"
    by (simp add: audioCandidate_iff)
next
  assume h: "analyser s \<and> dataArray inp \<noteq> [] \<and>
    now inp - lastDetectionTime s > (if closure_isSmartGuard s then 1000 else 300)"
  then have "cooldownOver inp s" by (simp add: gate_defs)
  from audioStep_time_iff [OF this] h
  show "lastDetectionTime (audioStep inp s) = now inp \<longleftrightarrow>
         of_nat (Max (unat ` set (dataArray inp))) / 255 * 100 >
           (of_int (100 - closure_audioSensitivity s) :: rat)"
    by (simp add: audioCandidate_iff)
qed


text \<open>
  The audio score is modelled as the exact quotient.  Computed in doubles, as line 190
  does, it differs by less than 1/51, and its test against an integer threshold comes out
  the same.
\<close>

lemma audio_double_close:
  assumes "b \<le> 255"
  shows "\<bar>fl (fl (of_nat b / 255) * 100) - of_nat b / 255 * 100\<bar> < 1 / 51"
proof (cases "b = 0")
  case True
  then show ?thesis by simp
next
  case False
  let ?x = "(of_nat b :: rat) / 255"
  let ?a = "fl ?x"
  let ?y = "?a * 100"
  have x: "0 < ?x" "?x \<le> 1" using False assms by simp_all
  have e1: "\<bar>?a - ?x\<bar> \<le> ?x / 2 ^ 53" using x(1) by (rule fl_error)
  also have "\<dots> \<le> 1 / 2 ^ 53" using x(2) by (simp add: divide_right_mono)
  finally have e1': "\<bar>?a - ?x\<bar> \<le> 1 / 2 ^ 53" .
  have "?x / 2 ^ 53 < ?x" using x(1) by simp
  with e1 have a: "0 < ?a" by linarith
  have small: "(1 :: rat) / 2 ^ 53 \<le> 1 / 100" by simp
  have a1: "?a \<le> 101 / 100" using e1' x(2) small by linarith
  have y: "0 < ?y" "?y \<le> 101" using a a1 by simp_all
  have "\<bar>fl ?y - ?y\<bar> \<le> ?y / 2 ^ 53" using y(1) by (rule fl_error)
  also have "\<dots> \<le> 101 / 2 ^ 53" using y(2) by (simp add: divide_right_mono)
  finally have e2: "\<bar>fl ?y - ?y\<bar> \<le> 101 / 2 ^ 53" .
  have e3: "\<bar>?y - ?x * 100\<bar> \<le> 100 / 2 ^ 53"
  proof -
    define d where "d = ?a - ?x"
    have "?y - ?x * 100 = d * 100" unfolding d_def by (rule left_diff_distrib [symmetric])
    then have "\<bar>?y - ?x * 100\<bar> = \<bar>d * 100\<bar>" by (simp only:)
    also have "\<dots> = \<bar>d\<bar> * 100" by (simp add: abs_mult)
    also have "\<dots> \<le> 1 / 2 ^ 53 * 100" using e1' unfolding d_def by (intro mult_right_mono) simp_all
    finally show ?thesis by simp
  qed
  have "\<bar>fl ?y - ?x * 100\<bar> \<le> \<bar>fl ?y - ?y\<bar> + \<bar>?y - ?x * 100\<bar>" by linarith
  also have "\<dots> \<le> 101 / 2 ^ 53 + 100 / 2 ^ 53" using e2 e3 by linarith
  also have "\<dots> < 1 / 51" by simp
  finally show ?thesis .
qed

lemma audio_exact_points:
  "fl (fl (51 / 255) * 100) = 20"
  "fl (fl (102 / 255) * 100) = 40"
  "fl (fl (153 / 255) * 100) = 60"
  "fl (fl (204 / 255) * 100) = 80"
  "fl (fl (255 / 255) * 100) = 100"
  by code_simp+

lemma multiples_of_51:
  fixes b :: nat
  assumes "51 dvd b" "b \<le> 255"
  shows "b = 0 \<or> b = 51 \<or> b = 102 \<or> b = 153 \<or> b = 204 \<or> b = 255"
proof -
  from assms(1) obtain k where k: "b = 51 * k" by (auto simp: dvd_def)
  with assms(2) have "k \<le> 5" by simp
  then have "k = 0 \<or> k = 1 \<or> k = 2 \<or> k = 3 \<or> k = 4 \<or> k = 5" by linarith
  with k show ?thesis by auto
qed

lemma not_on_grid:
  fixes b :: nat
  assumes "\<not> 51 dvd b"
  shows "20 * int b \<noteq> 51 * t"
proof
  assume "20 * int b = 51 * t"
  then have "51 dvd 20 * int b" by simp
  moreover have "coprime (51 :: int) 20" by (simp add: coprime_iff_gcd_eq_1 gcd_non_0_int)
  ultimately have "51 dvd int b" by (simp add: coprime_dvd_mult_right_iff)
  then have "51 dvd b" by presburger
  with assms show False by simp
qed

lemma audio_test_in_doubles:
  assumes "b \<le> 255"
  shows "fl (fl (of_nat b / 255) * 100) > of_int t \<longleftrightarrow> (of_nat b / 255 * 100 :: rat) > of_int t"
proof (cases "51 dvd b")
  case True
  from multiples_of_51 [OF True assms] show ?thesis
    using audio_exact_points by auto
next
  case False
  define n where "n = 20 * int b - 51 * t"
  define D where "D = fl (fl (of_nat b / 255) * 100)"
  define Q where "Q = (of_nat b / 255 * 100 :: rat)"
  have "n \<noteq> 0" using not_on_grid [OF False, of t] by (simp add: n_def)
  then have "1 \<le> \<bar>n\<bar>" by linarith
  then have one: "(1 :: rat) \<le> \<bar>of_int n\<bar>" by (simp flip: of_int_abs)
  have "Q - of_int t = of_int n / 51" by (simp add: Q_def n_def field_simps)
  then have "\<bar>Q - of_int t\<bar> = \<bar>of_int n / (51 :: rat)\<bar>" by (simp only:)
  also have "\<dots> = \<bar>of_int n\<bar> / 51" by simp
  finally have "\<bar>Q - of_int t\<bar> = \<bar>of_int n\<bar> / 51" .
  with one have far: "1 / 51 \<le> \<bar>Q - of_int t\<bar>" by (simp add: divide_right_mono)
  have close: "\<bar>D - Q\<bar> < 1 / 51"
    unfolding D_def Q_def using assms by (rule audio_double_close)
  from close far have "D > of_int t \<longleftrightarrow> Q > of_int t" by linarith
  then show ?thesis by (simp only: D_def Q_def)
qed

lemma audio_gate_in_doubles:
  assumes "arr \<noteq> []"
  shows "js_gt (normalizedLevel arr) (of_int t) \<longleftrightarrow>
     fl (fl (of_nat (Max (unat ` set arr)) / 255) * 100) > of_int t"
  using audio_test_in_doubles [OF peak_le_255 [OF assms], of t]
  by (simp add: normalizedLevel_nonempty [OF assms])

text \<open>
  Claim C4 fails on the code after the audio slider is moved during a session.  The
  slider is at 99, so the threshold of the claim is 1, and the buffer's peak 10 gives the
  score 200/51, about 3.9, above it.  The peak and its normalisation are as the claim
  says, but the installed \<open>detectMotion\<close> still compares with 100 - 60 = 40: the tick has
  no audio candidate and the clock stays at 5000 although the cooldown is over.  Once the
  effect has run again the same tick has an audio candidate and sets the clock.
\<close>

theorem audio_threshold_after_slider:
  "reachable slider_moved \<and> audioSensitivity slider_moved = 99 \<and>
   isMonitoring slider_moved \<and> analyser slider_moved \<and>
   videoReady faint_tick \<and> canvasReady faint_tick \<and>
   Max (unat ` set (dataArray faint_tick)) = 10 \<and>
   js_gt (normalizedLevel (dataArray faint_tick)) (of_int (100 - audioSensitivity slider_moved)) \<and>
   now faint_tick - lastDetectionTime slider_moved > 1000 \<and>
   \<not> audioCandidate faint_tick slider_moved \<and>
   lastDetectionTime (detectMotion faint_tick slider_moved) = 5000 \<and>
   events (detectMotion faint_tick slider_moved) = events slider_moved \<and>
   pending (detectMotion faint_tick slider_moved) = pending slider_moved \<and>
   audioCandidate faint_tick (install slider_moved) \<and>
   lastDetectionTime (detectMotion faint_tick (install slider_moved)) = 7000"
  using reachable_slider_moved
  by (simp add: slider_moved_eq faint_tick_def audioCandidate_def run_defs)

text \<open>
  In the words of the claim: the score is above 100 minus the audio sensitivity, and no
  audio candidate fires.
\<close>

theorem audio_threshold_after_slider_witness:
  "js_gt (normalizedLevel (dataArray faint_tick)) (of_int (100 - audioSensitivity slider_moved)) \<and>
   \<not> audioCandidate faint_tick slider_moved \<and>
   lastDetectionTime (detectMotion faint_tick slider_moved) \<noteq> now faint_tick"
proof -
  have t: "now faint_tick = 7000" by (simp add: faint_tick_def second_tick_def)
  have c: "lastDetectionTime (detectMotion faint_tick slider_moved) = 5000"
    using audio_threshold_after_slider by blast
  have "lastDetectionTime (detectMotion faint_tick slider_moved) \<noteq> now faint_tick"
    unfolding t c by simp
  with audio_threshold_after_slider show ?thesis by blast
qed

subsection \<open>Instant alerts without smart guard\<close>

lemma motionStep_isSmartGuard [simp]:
  "isSmartGuard (motionStep inp s) = isSmartGuard s"
  "closure_isSmartGuard (motionStep inp s) = closure_isSmartGuard s"
  by (simp_all add: motionStep_def compareFrames_def Let_def split: option.splits)

lemma detectMotion_isSmartGuard [simp]:
  "isSmartGuard (detectMotion inp s) = isSmartGuard s"
  "closure_isSmartGuard (detectMotion inp s) = closure_isSmartGuard s"
  by (simp_all add: detectMotion_def)








subsection \<open>A dropped candidate restarts the cooldown\<close>

lemma dropped_candidate:
  assumes on: "closure_isSmartGuard s" and busy: "isAnalyzing s"
    and run: "isMonitoring s" "videoReady inp" "canvasReady inp"
    and cand: "audioCandidate inp s \<or> motionCandidate inp s"
    and over: "cooldownOver inp s"
  shows "events (detectMotion inp s) = events s"
    and "pending (detectMotion inp s) = pending s"
    and "isAnalyzing (detectMotion inp s)"
    and "isSuspicious (detectMotion inp s) = isSuspicious s"
proof -
  have d: "detectMotion inp s = motionStep inp (audioStep inp s)"
    using run by (simp add: detectMotion_def)
  have "events (detectMotion inp s) = events s \<and> pending (detectMotion inp s) = pending s \<and>
    isAnalyzing (detectMotion inp s) \<and> isSuspicious (detectMotion inp s) = isSuspicious s"
  proof (cases "audioCandidate inp s")
    case True
    have a: "audioStep inp s =
        s\<lparr>audioLevel := normalizedLevel (dataArray inp), lastDetectionTime := now inp\<rparr>"
      using audioStep_accepted [OF True over] on busy by (simp add: analyzeFrame_dropped)
    then have "\<not> (motionCandidate inp (audioStep inp s) \<and> cooldownOver inp (audioStep inp s))"
      by (simp add: not_cooldownOver_at_now)
    from motionStep_rejected [OF this] busy show ?thesis by (simp add: d) (simp add: a)
  next
    case False
    then have r: "\<not> (audioCandidate inp s \<and> cooldownOver inp s)" by simp
    note a = audioStep_rejected_fields [OF r]
    have c: "motionCandidate inp (audioStep inp s)" using cand False by simp
    then obtain prevData where p: "prevFrame (audioStep inp s) = Some prevData"
      by (auto simp: motionCandidate_def split: option.splits)
    have o: "cooldownOver inp (audioStep inp s)" using over a(6) by simp
    have b: "isAnalyzing (audioStep inp s)" using busy a(4) by simp
    from motionStep_accepted [OF c o p] on b busy show ?thesis
      by (simp add: d analyzeFrame_dropped a)
  qed
  then show "events (detectMotion inp s) = events s"
    and "pending (detectMotion inp s) = pending s"
    and "isAnalyzing (detectMotion inp s)"
    and "isSuspicious (detectMotion inp s) = isSuspicious s"
    by simp_all
qed


text \<open>
  What happens to a candidate while a verification is in flight, in terms of what
  \<open>detectMotion\<close> sees: with the captured copy of \<open>isSmartGuard\<close> set, the clock is set,
  the call of \<open>analyzeFrame\<close> is dropped, and every tick of the next 1000ms accepts
  nothing.
\<close>

lemma dropped_candidate_closure:
  "closure_isSmartGuard s \<and> isAnalyzing s \<and> isMonitoring s \<and> videoReady inp \<and> canvasReady inp \<and>
   (audioCandidate inp s \<or> motionCandidate inp s) \<and> now inp - lastDetectionTime s > 1000 \<longrightarrow>
     lastDetectionTime (detectMotion inp s) = now inp \<and>
     events (detectMotion inp s) = events s \<and>
     pending (detectMotion inp s) = pending s \<and>
     isAnalyzing (detectMotion inp s) \<and>
     isSuspicious (detectMotion inp s) = isSuspicious s \<and>
     (\<forall>inp'. now inp' - now inp \<le> 1000 \<longrightarrow>
        lastDetectionTime (detectMotion inp' (detectMotion inp s)) = now inp \<and>
        events (detectMotion inp' (detectMotion inp s)) = events s \<and>
        pending (detectMotion inp' (detectMotion inp s)) = pending s \<and>
        isSuspicious (detectMotion inp' (detectMotion inp s)) = isSuspicious s)"
proof (intro impI)
  assume h: "closure_isSmartGuard s \<and> isAnalyzing s \<and> isMonitoring s \<and> videoReady inp \<and> canvasReady inp \<and>
   (audioCandidate inp s \<or> motionCandidate inp s) \<and> now inp - lastDetectionTime s > 1000"
  then have on: "closure_isSmartGuard s" and busy: "isAnalyzing s"
    and run: "isMonitoring s" "videoReady inp" "canvasReady inp"
    and cand: "audioCandidate inp s \<or> motionCandidate inp s"
    by simp_all
  from h have over: "cooldownOver inp s" by (simp add: gate_defs)
  have t: "lastDetectionTime (detectMotion inp s) = now inp"
    using run cand over by (rule detectMotion_accepted_time)
  note d = dropped_candidate [OF on busy run cand over]
  have later: "\<forall>inp'. now inp' - now inp \<le> 1000 \<longrightarrow>
        lastDetectionTime (detectMotion inp' (detectMotion inp s)) = now inp \<and>
        events (detectMotion inp' (detectMotion inp s)) = events s \<and>
        pending (detectMotion inp' (detectMotion inp s)) = pending s \<and>
        isSuspicious (detectMotion inp' (detectMotion inp s)) = isSuspicious s"
  proof (intro allI impI)
    fix inp' :: tick_input
    assume "now inp' - now inp \<le> 1000"
    then have "\<not> cooldownOver inp' (detectMotion inp s)"
      using on by (simp add: gate_defs t)
    from detectMotion_within_cooldown [OF this] t d
    show "lastDetectionTime (detectMotion inp' (detectMotion inp s)) = now inp \<and>
        events (detectMotion inp' (detectMotion inp s)) = events s \<and>
        pending (detectMotion inp' (detectMotion inp s)) = pending s \<and>
        isSuspicious (detectMotion inp' (detectMotion inp s)) = isSuspicious s"
      by simp
  qed
  from t d later
  show "lastDetectionTime (detectMotion inp s) = now inp \<and>
     events (detectMotion inp s) = events s \<and>
     pending (detectMotion inp s) = pending s \<and>
     isAnalyzing (detectMotion inp s) \<and>
     isSuspicious (detectMotion inp s) = isSuspicious s \<and>
     (\<forall>inp'. now inp' - now inp \<le> 1000 \<longrightarrow>
        lastDetectionTime (detectMotion inp' (detectMotion inp s)) = now inp \<and>
        events (detectMotion inp' (detectMotion inp s)) = events s \<and>
        pending (detectMotion inp' (detectMotion inp s)) = pending s \<and>
        isSuspicious (detectMotion inp' (detectMotion inp s)) = isSuspicious s)"
    by blast
qed


text \<open>
  Claim C10 fails on the code when Smart Guard was switched off and on again during a
  verification, with the motion slider moved in between.  Smart Guard is on and the
  verification of the first tick is in flight, so by the claim the motion candidate at
  7000, past the cooldown, is to be dropped without an event.  The installed
  \<open>detectMotion\<close> holds Smart Guard off: it takes the instant path, logs an
  \<open>Instant Motion Alert\<close> and raises the alarm.  Once the effect has run again the same
  tick logs nothing and only sets the clock.
\<close>

theorem dropped_candidate_after_toggle:
  "reachable guard_back_on \<and> isSmartGuard guard_back_on \<and> isAnalyzing guard_back_on \<and>
   isMonitoring guard_back_on \<and> videoReady second_tick \<and> canvasReady second_tick \<and>
   pending guard_back_on = [''data:image/jpeg;base64,AAAA''] \<and>
   motionCandidate second_tick guard_back_on \<and>
   now second_tick - lastDetectionTime guard_back_on > 1000 \<and>
   events (detectMotion second_tick guard_back_on) =
     [\<lparr>ev_id = ''p0o9i8u7y'', ev_timestamp = 7000, ev_image = ''data:image/jpeg;base64,DDDD'',
       ev_isSuspicious = True, ev_reason = ''Instant Motion Alert''\<rparr>] \<and>
   isSuspicious (detectMotion second_tick guard_back_on) \<and>
   events (detectMotion second_tick (install guard_back_on)) = [] \<and>
   \<not> isSuspicious (detectMotion second_tick (install guard_back_on)) \<and>
   lastDetectionTime (detectMotion second_tick (install guard_back_on)) = 7000"
  using reachable_guard_back_on
  by (simp add: guard_back_on_eq motionCandidate_def run_defs pushEvent_def)

text \<open>
  In the words of the claim: Smart Guard is on, a verification is in flight, and the
  candidate produces an event.
\<close>

theorem dropped_candidate_after_toggle_witness:
  "isSmartGuard guard_back_on \<and> isAnalyzing guard_back_on \<and>
   motionCandidate second_tick guard_back_on \<and>
   events (detectMotion second_tick guard_back_on) \<noteq> events guard_back_on \<and>
   isSuspicious (detectMotion second_tick guard_back_on)"
  using dropped_candidate_after_toggle by (simp add: guard_back_on_eq)

end
